theory Spec2Isabelle
  imports Complex_Main "HOL-Library.Multiset"
begin

section \<open>Recycling Sorter: the game logic of pr.py\<close>

text \<open>
  The embedding follows \<^verbatim>\<open>src/pr.py\<close>. Python's \<^verbatim>\<open>float\<close> coordinates, timers
  and velocities are modelled as \<^typ>\<open>real\<close> (rounding is not modelled), Python's
  \<^verbatim>\<open>int\<close> as \<^typ>\<open>int\<close>, and the level index and list positions, which never go
  below zero, as \<^typ>\<open>nat\<close>. Drawing and sound have no effect on the fields of
  \<^verbatim>\<open>Game\<close> and are left out. The random draws of \<^verbatim>\<open>spawn_item\<close>, the frame
  time and the event queue are inputs. The high-score file and the reads and writes
  made to it are part of the state.
\<close>

subsection \<open>Config\<close>

definition SCREEN_W :: int where "SCREEN_W = 1000"
definition SCREEN_H :: int where "SCREEN_H = 650"

type_synonym colour = "int \<times> int \<times> int"

definition C_PAPER :: colour where "C_PAPER = (59, 130, 246)"
definition C_PLASTIC :: colour where "C_PLASTIC = (239, 68, 68)"
definition C_METAL :: colour where "C_METAL = (161, 161, 170)"
definition C_ORGANIC :: colour where "C_ORGANIC = (34, 197, 94)"
definition C_EWASTE :: colour where "C_EWASTE = (147, 51, 234)"

definition BINS :: "(string \<times> colour) list" where
  "BINS = [(''Paper'', C_PAPER), (''Plastic'', C_PLASTIC), (''Metal'', C_METAL),
           (''Organic'', C_ORGANIC), (''E-Waste'', C_EWASTE)]"

text \<open>The dictionary \<^verbatim>\<open>ITEMS\<close>: name to (category, tip), in the order of the source.\<close>

definition ITEMS :: "(string \<times> string \<times> string) list" where
  "ITEMS =
    [(''Newspaper'', ''Paper'', ''Paper goes in blue bin. Keep it dry.''),
     (''Cardboard'', ''Paper'', ''Flatten boxes to save space.''),
     (''Notebook'', ''Paper'', ''Remove plastic spirals when possible.''),
     (''Magazine'', ''Paper'', ''Glossy paper can be recycled in many cities.''),
     (''Paper Cup'', ''Paper'', ''If wax-lined, check local rules.''),
     (''Bottle'', ''Plastic'', ''Empty and crush to save space.''),
     (''Food Box'', ''Plastic'', ''Rinse to avoid contamination.''),
     (''Straw'', ''Plastic'', ''Hard to recycle; avoid single-use.''),
     (''Milk Jug'', ''Plastic'', ''Caps on or off depends on locale.''),
     (''Toothbrush'', ''Plastic'', ''Consider bamboo alternatives.''),
     (''Can'', ''Metal'', ''Aluminum recycles endlessly!''),
     (''Tin Can'', ''Metal'', ''Rinse before recycling.''),
     (''Soda Can'', ''Metal'', ''Crush cans to save space.''),
     (''Foil'', ''Metal'', ''Clean foil can be recycled if balled up.''),
     (''Steel Lid'', ''Metal'', ''Attach to can if safe.''),
     (''Banana Peel'', ''Organic'', ''Great for compost.''),
     (''Apple Core'', ''Organic'', ''Compost to enrich soil.''),
     (''Tea Bag'', ''Organic'', ''Check if bag has plastic.''),
     (''Leaves'', ''Organic'', ''Compost yard waste.''),
     (''Egg Shells'', ''Organic'', ''Add to compost for calcium.''),
     (''Phone'', ''E-Waste'', ''Take to e-waste drop-off.''),
     (''Battery'', ''E-Waste'', ''Never bin batteries!''),
     (''Charger'', ''E-Waste'', ''E-waste centers recover metals.''),
     (''Earphones'', ''E-Waste'', ''Recycle wires/e-waste properly.''),
     (''Keyboard'', ''E-Waste'', ''Contains valuable components.'')]"

text \<open>
  \<^verbatim>\<open>LEVELS\<close>: (fall_speed, spawn_interval_frames, level_duration_seconds,
  target_score_increment).
\<close>

definition LEVELS :: "(real \<times> int \<times> real \<times> int) list" where
  "LEVELS = [(2.4, 75, 50, 200), (3.0, 65, 55, 450), (3.6, 58, 60, 800),
             (4.2, 52, 60, 1200), (4.8, 46, 65, 1700)]"

definition LIVES_START :: int where "LIVES_START = 3"

subsection \<open>Library values: Python errors, int(), pygame.Rect\<close>

datatype error = IndexError | KeyError

text \<open>\<^verbatim>\<open>int(f)\<close> on a float truncates towards zero.\<close>

definition py_int :: "real \<Rightarrow> int" where
  "py_int r = (if 0 \<le> r then \<lfloor>r\<rfloor> else \<lceil>r\<rceil>)"

text \<open>\<^verbatim>\<open>str(n)\<close> for a non-negative integer, as the f-string of the level-up tip uses it.\<close>

fun str_nat :: "nat \<Rightarrow> string" where
  "str_nat n =
     (if n < 10 then [char_of (48 + n)]
      else str_nat (n div 10) @ [char_of (48 + n mod 10)])"

declare str_nat.simps [simp del]

text \<open>
  \<^verbatim>\<open>pygame.Rect\<close> with its attributes \<^verbatim>\<open>left, top, width, height\<close>. The two
  collision tests are those of the pygame library: a point is inside when it is on or
  after the left/top edge and strictly before the right/bottom edge; two rectangles
  collide when neither has a zero side and their extents overlap strictly on both axes.
\<close>

record rect =
  left :: int
  top :: int
  width :: int
  height :: int

definition Rect :: "int \<Rightarrow> int \<Rightarrow> int \<Rightarrow> int \<Rightarrow> rect" where
  "Rect a b c d = \<lparr>left = a, top = b, width = c, height = d\<rparr>"

definition collidepoint :: "rect \<Rightarrow> int \<times> int \<Rightarrow> bool" where
  "collidepoint r pos =
     (left r \<le> fst pos \<and> fst pos < left r + width r \<and>
      top r \<le> snd pos \<and> snd pos < top r + height r)"

definition colliderect :: "rect \<Rightarrow> rect \<Rightarrow> bool" where
  "colliderect a b =
     (if width a = 0 \<or> height a = 0 \<or> width b = 0 \<or> height b = 0 then False
      else min (left a) (left a + width a) < max (left b) (left b + width b) \<and>
           min (top a) (top a + height a) < max (top b) (top b + height b) \<and>
           max (left a) (left a + width a) > min (left b) (left b + width b) \<and>
           max (top a) (top a + height a) > min (top b) (top b + height b))"

subsection \<open>Game objects\<close>

text \<open>
  The dataclass \<^verbatim>\<open>Item\<close>. Its fields \<^verbatim>\<open>x, y, w, h\<close> are named
  \<open>item_x, item_y, item_w, item_h\<close> here. A dataclass compares by the values of its
  fields, which is the equality of the record.
\<close>

record item =
  name :: string
  category :: string
  tip :: string
  item_x :: real
  item_y :: real
  vx :: real
  vy :: real
  color :: colour
  item_w :: int
  item_h :: int
  dragging :: bool
  grabbed_dx :: real
  grabbed_dy :: real
  rot :: real
  rot_speed :: real

text \<open>The constructor call \<^verbatim>\<open>Item(name, category, tip, x, y, vx, vy, color)\<close>; the
  default factory of \<^verbatim>\<open>rot_speed\<close> draws a random number, passed here as \<open>rs\<close>.\<close>

definition Item :: "string \<Rightarrow> string \<Rightarrow> string \<Rightarrow> real \<Rightarrow> real \<Rightarrow> real \<Rightarrow> real \<Rightarrow> colour
    \<Rightarrow> real \<Rightarrow> item" where
  "Item n c t px py pvx pvy col rs =
     \<lparr>name = n, category = c, tip = t, item_x = px, item_y = py, vx = pvx, vy = pvy,
      color = col, item_w = 120, item_h = 40, dragging = False,
      grabbed_dx = 0, grabbed_dy = 0, rot = 0, rot_speed = rs\<rparr>"

definition Item_rect :: "item \<Rightarrow> rect" where
  "Item_rect it = Rect (py_int (item_x it)) (py_int (item_y it)) (item_w it) (item_h it)"

definition Item_update :: "item \<Rightarrow> real \<Rightarrow> item" where
  "Item_update it gravity =
     (if \<not> dragging it then
        (let it1 = it\<lparr>vy := vy it + gravity * 0.02\<rparr>;
             it2 = it1\<lparr>item_x := item_x it1 + vx it1\<rparr>;
             it3 = it2\<lparr>item_y := item_y it2 + vy it2\<rparr>
         in it3\<lparr>rot := rot it3 + rot_speed it3\<rparr>)
      else it)"

record bin =
  label :: string
  bin_color :: colour
  bin_rect :: rect

definition Bin :: "string \<Rightarrow> colour \<Rightarrow> rect \<Rightarrow> bin" where
  "Bin l c r = \<lparr>label = l, bin_color = c, bin_rect = r\<rparr>"

subsection \<open>The high-score file\<close>

text \<open>
  The file is absent, or its content makes \<^verbatim>\<open>load_hiscore\<close> raise (caught, result 0),
  or \<^verbatim>\<open>int(data.get("hiscore", 0))\<close> evaluates to a number. Every call of
  \<^verbatim>\<open>load_hiscore\<close> and \<^verbatim>\<open>save_hiscore\<close> is recorded in \<open>io_trace\<close>.

  \<^verbatim>\<open>save_hiscore\<close> swallows every exception of its write. What the file system does
  with a write is an input, the field \<open>disk\<close>: the write goes through; or
  \<^verbatim>\<open>open\<close> raises and the file stays as it was; or \<^verbatim>\<open>open\<close> has emptied the file
  and \<^verbatim>\<open>json.dump\<close> raises, which leaves a file that \<^verbatim>\<open>load_hiscore\<close> cannot read.
\<close>

datatype hsfile = Absent | Corrupt | Stored int

datatype disk_state = Writable | OpenFails | DumpFails

datatype io = Read | Write int | WriteFailed int

datatype gstate = MENU | PLAYING | PAUSE | GAMEOVER

record game =
  items :: "item list"
  score :: int
  hiscore :: int
  lives :: int
  level :: nat
  level_time_left :: real
  level_target :: int
  frames_since_spawn :: int
  streak :: int
  tip_message :: string
  tip_timer :: real
  state :: gstate
  bins :: "bin list"
  muted :: bool
  running :: bool
  hs_file :: hsfile
  disk :: disk_state
  io_trace :: "io list"

definition file_value :: "hsfile \<Rightarrow> int" where
  "file_value f = (case f of Absent \<Rightarrow> 0 | Corrupt \<Rightarrow> 0 | Stored v \<Rightarrow> v)"

definition load_hiscore :: "game \<Rightarrow> int \<times> game" where
  "load_hiscore s = (file_value (hs_file s), s\<lparr>io_trace := io_trace s @ [Read]\<rparr>)"

definition save_hiscore :: "int \<Rightarrow> game \<Rightarrow> game" where
  "save_hiscore sc s =
     (case disk s of
        Writable \<Rightarrow> s\<lparr>hs_file := Stored sc, io_trace := io_trace s @ [Write sc]\<rparr>
      | OpenFails \<Rightarrow> s\<lparr>io_trace := io_trace s @ [WriteFailed sc]\<rparr>
      | DumpFails \<Rightarrow> s\<lparr>hs_file := Corrupt, io_trace := io_trace s @ [WriteFailed sc]\<rparr>)"

subsection \<open>Game\<close>

text \<open>The bins built by \<^verbatim>\<open>reset\<close>: evenly across the bottom, in the order of \<^verbatim>\<open>BINS\<close>.\<close>

definition build_bins :: "bin list" where
  "build_bins =
     (let margin = 20;
          bin_w = (SCREEN_W - margin * (int (length BINS) + 1)) div int (length BINS);
          bin_h = 110;
          by = SCREEN_H - bin_h - 20
      in map (\<lambda>(i, (lbl, col)). Bin lbl col (Rect (margin + int i * (bin_w + margin)) by bin_w bin_h))
             (enumerate 0 BINS))"

definition reset :: "bool \<Rightarrow> game \<Rightarrow> game" where
  "reset full s =
     (let (hs, s1) = load_hiscore (s\<lparr>items := [], score := 0\<rparr>)
      in s1\<lparr>hiscore := hs,
            lives := LIVES_START,
            level := 0,
            level_time_left := fst (snd (snd (LEVELS ! 0))),
            level_target := snd (snd (snd (LEVELS ! 0))),
            frames_since_spawn := 0,
            streak := 0,
            tip_message := [],
            tip_timer := 0,
            state := (if full then MENU else PLAYING),
            bins := build_bins\<rparr>)"

text \<open>\<^verbatim>\<open>Game.__init__\<close>, given the high-score file found at start. The constructor
  writes nothing; every frame of the main loop brings its own \<open>disk\<close>.\<close>

definition Game_init :: "hsfile \<Rightarrow> game" where
  "Game_init f =
     reset True \<lparr>items = [], score = 0, hiscore = 0, lives = 0, level = 0,
       level_time_left = 0, level_target = 0, frames_since_spawn = 0, streak = 0,
       tip_message = [], tip_timer = 0, state = MENU, bins = [], muted = False,
       running = True, hs_file = f, disk = Writable, io_trace = []\<rparr>"

text \<open>The random draws of one \<^verbatim>\<open>spawn_item\<close> call.\<close>

record rnd =
  pick :: string
  rnd_x :: int
  rnd_vx :: real
  rnd_vy :: real
  rnd_rot_speed :: real

definition category_color :: "(string \<times> colour) list" where
  "category_color = [(''Paper'', C_PAPER), (''Plastic'', C_PLASTIC), (''Metal'', C_METAL),
                     (''Organic'', C_ORGANIC), (''E-Waste'', C_EWASTE)]"

definition spawn_item :: "rnd \<Rightarrow> game \<Rightarrow> error + game" where
  "spawn_item r s =
     (case map_of ITEMS (pick r) of
        None \<Rightarrow> Inl KeyError
      | Some (cat, tp) \<Rightarrow>
          (case map_of category_color cat of
             None \<Rightarrow> Inl KeyError
           | Some col \<Rightarrow>
               Inr (s\<lparr>items := items s @
                      [Item (pick r) cat tp (real_of_int (rnd_x r)) (- 50) (rnd_vx r) (rnd_vy r)
                         col (rnd_rot_speed r)]\<rparr>)))"

definition game_over :: "game \<Rightarrow> game" where
  "game_over s =
     (let s1 = s\<lparr>state := GAMEOVER\<rparr>
      in if score s1 > hiscore s1 then (save_hiscore (score s1) s1)\<lparr>hiscore := score s1\<rparr>
         else s1)"

definition register_miss :: "game \<Rightarrow> game" where
  "register_miss s =
     (let s1 = s\<lparr>streak := 0\<rparr>;
          s2 = s1\<lparr>lives := lives s1 - 1\<rparr>
      in if lives s2 \<le> 0 then game_over s2 else s2)"

definition register_hit :: "bool \<Rightarrow> string \<Rightarrow> game \<Rightarrow> game" where
  "register_hit correct tp s =
     (if correct then
        (let s1 = s\<lparr>streak := streak s + 1\<rparr>;
             base = 50;
             bonus = min (5 * streak s1) 150
         in s1\<lparr>score := score s1 + (base + bonus), tip_message := tp, tip_timer := 3.5\<rparr>)
      else (register_miss s)\<lparr>tip_message := tp, tip_timer := 3.5\<rparr>)"

text \<open>
  The loop \<^verbatim>\<open>for it in self.items[:]\<close> of \<^verbatim>\<open>update\<close>. The copy holds the same
  objects as \<^verbatim>\<open>self.items\<close>, so \<^verbatim>\<open>it.update\<close> changes the element of the live list
  in place: \<open>i\<close> is the position in the live list of the object the loop is at, and
  \<open>n\<close> the number of objects of the copy still to visit. \<^verbatim>\<open>list.remove\<close> deletes the
  first element equal to its argument, which is at position \<open>i\<close> or before it, so after
  a removal the next object of the copy is at position \<open>i\<close> again.
\<close>

fun update_items :: "nat \<Rightarrow> nat \<Rightarrow> real \<Rightarrow> game \<Rightarrow> game" where
  "update_items 0 i fall_speed s = s"
| "update_items (Suc n) i fall_speed s =
     (let it = Item_update (items s ! i) fall_speed;
          s1 = s\<lparr>items := (items s)[i := it]\<rparr>
      in if item_y it > real_of_int (SCREEN_H + 60)
         then update_items n i fall_speed (register_miss (s1\<lparr>items := remove1 it (items s1)\<rparr>))
         else update_items n (Suc i) fall_speed s1)"

definition tip_tick :: "real \<Rightarrow> game \<Rightarrow> game" where
  "tip_tick dt s =
     (if tip_timer s > 0 then
        (let s1 = s\<lparr>tip_timer := tip_timer s - dt\<rparr>
         in if tip_timer s1 \<le> 0 then s1\<lparr>tip_message := []\<rparr> else s1)
      else s)"

text \<open>The bytes of the tip texts that are not ASCII, as they stand in the source file.\<close>

definition LEVEL_UP_MARK :: string where
  "LEVEL_UP_MARK = [CHR 0xC3, CHR 0xB0, CHR 0xC5, CHR 0xB8, CHR 0xC5, CHR 0xBD, CHR 0xE2, CHR 0x80, CHR 0xB0]"

definition CORRECT_MARK :: string where
  "CORRECT_MARK = [CHR 0xC3, CHR 0xA2, CHR 0xC5, CHR 0x93, CHR 0xE2, CHR 0x80, CHR 0xA6]"

definition WRONG_MARK :: string where
  "WRONG_MARK = [CHR 0xC3, CHR 0xA2, CHR 0xC5, CHR 0x92]"

definition level_timer :: "real \<Rightarrow> game \<Rightarrow> game" where
  "level_timer dt s =
     (let s1 = s\<lparr>level_time_left := level_time_left s - dt\<rparr>
      in if level_time_left s1 \<le> 0 then
           (if score s1 \<ge> level_target s1 \<and> int (level s1) < int (length LEVELS) - 1 then
              (let s2 = s1\<lparr>level := level s1 + 1\<rparr>
               in s2\<lparr>level_time_left := fst (snd (snd (LEVELS ! level s2))),
                     level_target := snd (snd (snd (LEVELS ! level s2))),
                     tip_message := ''Level up! Level '' @ str_nat (level s2 + 1) @ '' '' @ LEVEL_UP_MARK,
                     tip_timer := 3.0\<rparr>)
            else game_over s1)
         else s1)"

text \<open>
  \<^verbatim>\<open>Game.update\<close>, in two parts. \<open>spawn_tick\<close> is its beginning: the row of
  \<^verbatim>\<open>LEVELS\<close> is read (\<^verbatim>\<open>LEVELS[self.level]\<close> raises IndexError past the end of the
  table), the frame counter is advanced and an item is spawned when the counter reaches
  the spawn interval. \<open>update\<close> then runs the item loop, the tip timer and the level
  timer.
\<close>

definition spawn_tick :: "rnd \<Rightarrow> game \<Rightarrow> error + game" where
  "spawn_tick r s =
     (if level s \<ge> length LEVELS then Inl IndexError
      else
        (let spawn_interval = fst (snd (LEVELS ! level s));
             s1 = s\<lparr>frames_since_spawn := frames_since_spawn s + 1\<rparr>
         in if frames_since_spawn s1 \<ge> spawn_interval
            then spawn_item r (s1\<lparr>frames_since_spawn := 0\<rparr>) else Inr s1))"

definition update :: "real \<Rightarrow> rnd \<Rightarrow> game \<Rightarrow> error + game" where
  "update dt r s =
     (if state s \<noteq> PLAYING then Inr s
      else case spawn_tick r s of
             Inl e \<Rightarrow> Inl e
           | Inr s2 \<Rightarrow>
               (let fall_speed = fst (LEVELS ! level s)
                in Inr (level_timer dt (tip_tick dt
                          (update_items (length (items s2)) 0 fall_speed s2)))))"

text \<open>
  \<^verbatim>\<open>handle_mouse_down\<close>: the loop over \<^verbatim>\<open>reversed(self.items)\<close>; \<open>grab_scan n\<close>
  looks at position \<open>n - 1\<close> first and stops at the first hit.
\<close>

definition grab :: "item \<Rightarrow> int \<times> int \<Rightarrow> item" where
  "grab it pos =
     it\<lparr>dragging := True,
        grabbed_dx := item_x it - real_of_int (fst pos),
        grabbed_dy := item_y it - real_of_int (snd pos)\<rparr>"

fun grab_scan :: "nat \<Rightarrow> int \<times> int \<Rightarrow> item list \<Rightarrow> item list" where
  "grab_scan 0 pos its = its"
| "grab_scan (Suc i) pos its =
     (if collidepoint (Item_rect (its ! i)) pos then its[i := grab (its ! i) pos]
      else grab_scan i pos its)"

definition handle_mouse_down :: "int \<times> int \<Rightarrow> game \<Rightarrow> game" where
  "handle_mouse_down pos s =
     (if state s \<noteq> PLAYING then s
      else s\<lparr>items := grab_scan (length (items s)) pos (items s)\<rparr>)"

text \<open>
  \<^verbatim>\<open>handle_mouse_up\<close>. \<open>first_dragging\<close> is the position at which the outer loop finds
  its first dragged item; \<open>place_in_bins\<close> is the inner loop over \<^verbatim>\<open>self.bins\<close>, which
  stops at the first colliding bin. The function returns after the first dragged item.
\<close>

fun first_dragging :: "item list \<Rightarrow> nat option" where
  "first_dragging [] = None"
| "first_dragging (it # its) =
     (if dragging it then Some 0 else map_option Suc (first_dragging its))"

text \<open>The tip text that \<^verbatim>\<open>handle_mouse_up\<close> builds for a drop: the two f-strings.\<close>

definition drop_tip :: "bool \<Rightarrow> item \<Rightarrow> string" where
  "drop_tip correct it =
     (if correct then CORRECT_MARK @ '' '' @ name it @ '': '' @ tip it
      else WRONG_MARK @ '' '' @ name it @ '' goes in '' @ category it @ '' bin.'')"

fun place_in_bins :: "bin list \<Rightarrow> item \<Rightarrow> game \<Rightarrow> game" where
  "place_in_bins [] it s = s"
| "place_in_bins (b # bs) it s =
     (if colliderect (bin_rect b) (Item_rect it) then
        (let s1 = s\<lparr>items := remove1 it (items s)\<rparr>;
             correct = (category it = label b);
             tp = drop_tip correct it
         in register_hit correct tp s1)
      else place_in_bins bs it s)"

definition handle_mouse_up :: "int \<times> int \<Rightarrow> game \<Rightarrow> game" where
  "handle_mouse_up pos s =
     (if state s \<noteq> PLAYING then s
      else case first_dragging (items s) of
             None \<Rightarrow> s
           | Some i \<Rightarrow>
               (let it = (items s ! i)\<lparr>dragging := False\<rparr>;
                    s1 = s\<lparr>items := (items s)[i := it]\<rparr>
                in place_in_bins (bins s1) it s1))"

definition drag_to :: "int \<times> int \<Rightarrow> item \<Rightarrow> item" where
  "drag_to pos it =
     (if dragging it then
        it\<lparr>item_x := real_of_int (fst pos) + grabbed_dx it,
           item_y := real_of_int (snd pos) + grabbed_dy it,
           vx := 0, vy := 0\<rparr>
      else it)"

definition handle_mouse_motion :: "int \<times> int \<Rightarrow> game \<Rightarrow> game" where
  "handle_mouse_motion pos s =
     (if state s \<noteq> PLAYING then s else s\<lparr>items := map (drag_to pos) (items s)\<rparr>)"

subsection \<open>The main loop\<close>

datatype key = K_ESCAPE | K_SPACE | K_p | K_m | K_r | K_OTHER

datatype event =
    QUIT
  | KEYDOWN key
  | MOUSEBUTTONDOWN int "int \<times> int"
  | MOUSEBUTTONUP int "int \<times> int"
  | MOUSEMOTION "int \<times> int"
  | OTHER_EVENT

fun handle_event :: "event \<Rightarrow> game \<Rightarrow> game" where
  "handle_event QUIT s = s\<lparr>running := False\<rparr>"
| "handle_event (KEYDOWN k) s =
     (if k = K_ESCAPE then s\<lparr>running := False\<rparr>
      else if k = K_SPACE \<and> state s = MENU then s\<lparr>state := PLAYING\<rparr>
      else if k = K_p \<and> state s = PLAYING then s\<lparr>state := PAUSE\<rparr>
      else if k = K_p \<and> state s = PAUSE then s\<lparr>state := PLAYING\<rparr>
      else if k = K_m then s\<lparr>muted := \<not> muted s\<rparr>
      else if k = K_r \<and> state s = GAMEOVER then (reset False s)\<lparr>state := PLAYING\<rparr>
      else s)"
| "handle_event (MOUSEBUTTONDOWN b pos) s = (if b = 1 then handle_mouse_down pos s else s)"
| "handle_event (MOUSEBUTTONUP b pos) s = (if b = 1 then handle_mouse_up pos s else s)"
| "handle_event (MOUSEMOTION pos) s = handle_mouse_motion pos s"
| "handle_event OTHER_EVENT s = s"

text \<open>
  One pass of the \<^verbatim>\<open>while running\<close> loop: the frame time \<open>dt\<close>, the queued events
  in order, then \<^verbatim>\<open>update\<close> when the state is PLAYING. \<open>frame_disk\<close> is what the
  file system does with a write made during the frame. \<open>run\<close> is the loop over a
  finite list of frames; it stops when \<open>running\<close> is cleared.
\<close>

record frame =
  frame_dt :: real
  frame_events :: "event list"
  frame_rnd :: rnd
  frame_disk :: disk_state

definition run_frame :: "frame \<Rightarrow> game \<Rightarrow> error + game" where
  "run_frame f s =
     (let s0 = s\<lparr>disk := frame_disk f\<rparr>;
          s1 = foldl (\<lambda>g e. handle_event e g) s0 (frame_events f)
      in if state s1 = PLAYING then update (frame_dt f) (frame_rnd f) s1 else Inr s1)"

fun run :: "frame list \<Rightarrow> game \<Rightarrow> error + game" where
  "run [] s = Inr s"
| "run (f # fs) s =
     (if \<not> running s then Inr s
      else case run_frame f s of Inl e \<Rightarrow> Inl e | Inr s1 \<Rightarrow> run fs s1)"

subsection \<open>Sequences of drops and scenario states\<close>

text \<open>A run of correct drops, one tip text per drop.\<close>

fun correct_drops :: "string list \<Rightarrow> game \<Rightarrow> game" where
  "correct_drops [] s = s"
| "correct_drops (tp # tps) s = correct_drops tps (register_hit True tp s)"

text \<open>A fresh session: the game is constructed with no high-score file and started with SPACE.\<close>

definition fresh :: game where
  "fresh = handle_event (KEYDOWN K_SPACE) (Game_init Absent)"

text \<open>A Battery item held by the pointer over the E-Waste bin.\<close>

definition battery :: item where
  "battery = (Item ''Battery'' ''E-Waste'' ''Never bin batteries!'' 830 540 0 0 C_EWASTE 0)
               \<lparr>dragging := True\<rparr>"

text \<open>The same Battery held over the Paper bin, and a Can about to fall past the bottom.\<close>

definition battery_on_paper :: item where
  "battery_on_paper = (Item ''Battery'' ''E-Waste'' ''Never bin batteries!'' 40 540 0 0 C_EWASTE 0)
               \<lparr>dragging := True\<rparr>"

definition sinking :: item where
  "sinking = Item ''Can'' ''Metal'' ''Aluminum recycles endlessly!'' 300 709 0 2 C_METAL 0"

text \<open>Random draws used when a scenario needs a spawn.\<close>

definition rnd0 :: rnd where
  "rnd0 = \<lparr>pick = ''Battery'', rnd_x = 100, rnd_vx = 0, rnd_vy = 1, rnd_rot_speed = 0\<rparr>"

text \<open>The test \<^verbatim>\<open>it.y > SCREEN_H + 60\<close> of \<^verbatim>\<open>update\<close>: the item fell past the bottom.\<close>

definition fell :: "item \<Rightarrow> bool" where
  "fell it = (item_y it > real_of_int (SCREEN_H + 60))"

text \<open>A second Can about to fall past the bottom.\<close>

definition sinking2 :: item where
  "sinking2 = Item ''Tin Can'' ''Metal'' ''Rinse before recycling.'' 500 708 0 3 C_METAL 0"

text \<open>The in-memory high score agrees with what the file holds.\<close>

definition hs_sync :: "game \<Rightarrow> bool" where
  "hs_sync s = (hiscore s = file_value (hs_file s))"

text \<open>No write of the session so far has failed.\<close>

fun failed :: "io \<Rightarrow> bool" where
  "failed (WriteFailed v) = True"
| "failed a = False"

definition writes_ok :: "game \<Rightarrow> bool" where
  "writes_ok s = (filter failed (io_trace s) = [])"

text \<open>
  A short session: SPACE starts the game, a frame that took 50 seconds ends the level
  with the target unmet, and R restarts.
\<close>

definition restart_session :: "frame list" where
  "restart_session =
     [\<lparr>frame_dt = 0.016, frame_events = [KEYDOWN K_SPACE], frame_rnd = rnd0,
        frame_disk = Writable\<rparr>,
      \<lparr>frame_dt = 50, frame_events = [], frame_rnd = rnd0, frame_disk = Writable\<rparr>,
      \<lparr>frame_dt = 0.016, frame_events = [KEYDOWN K_r], frame_rnd = rnd0,
        frame_disk = Writable\<rparr>]"

text \<open>
  A Can falling in mid-air; the game after a pointer-down on it; and the game after the
  next tick and a pointer-up at the same place, with no pointer-move in between.
\<close>

definition falling_can :: item where
  "falling_can = Item ''Can'' ''Metal'' ''Aluminum recycles endlessly!'' 400 200 0 3 C_METAL 0"

definition grabbed_can :: game where
  "grabbed_can = handle_mouse_down (410, 210) (fresh\<lparr>items := [falling_can]\<rparr>)"

definition click_release :: "error + game" where
  "click_release = map_sum id (handle_mouse_up (410, 210)) (update 0.016 rnd0 grabbed_can)"

text \<open>The number of items of the list that are being dragged.\<close>

definition n_dragging :: "game \<Rightarrow> nat" where
  "n_dragging s = length (filter dragging (items s))"

text \<open>
  A session of 163 frames of 16 ms. SPACE starts the game; the first item spawns on
  tick 75 at x = 100 and the second on tick 150 at x = 500. After tick 158 the player
  presses the button on the first item, pauses with P, lets the button go while the
  game is paused, resumes with P and presses the button on the second item.
\<close>

definition rnd1 :: rnd where
  "rnd1 = \<lparr>pick = ''Bottle'', rnd_x = 500, rnd_vx = 0, rnd_vy = 1, rnd_rot_speed = 0\<rparr>"

definition idle :: "rnd \<Rightarrow> frame" where
  "idle r = \<lparr>frame_dt = 0.016, frame_events = [], frame_rnd = r, frame_disk = Writable\<rparr>"

definition input :: "event \<Rightarrow> frame" where
  "input e = \<lparr>frame_dt = 0.016, frame_events = [e], frame_rnd = rnd0,
      frame_disk = Writable\<rparr>"

definition two_grabs :: "frame list" where
  "two_grabs =
     input (KEYDOWN K_SPACE) # replicate 148 (idle rnd0) @ idle rnd1 # replicate 8 (idle rnd0) @
     [input (MOUSEBUTTONDOWN 1 (110, 210)), input (KEYDOWN K_p),
      input (MOUSEBUTTONUP 1 (110, 210)), input (KEYDOWN K_p),
      input (MOUSEBUTTONDOWN 1 (510, 0))]"

text \<open>
  More Batteries held by the pointer: one across the gap between the Organic and the
  E-Waste bin, overlapping both; one that overlaps only the top left corner of the
  E-Waste bin; one whose lower edge just touches the top of the E-Waste bin. And the
  game paused with P while the first Battery is held over the E-Waste bin.
\<close>

definition battery_between :: item where
  "battery_between = (Item ''Battery'' ''E-Waste'' ''Never bin batteries!'' 700 540 0 0 C_EWASTE 0)
               \<lparr>dragging := True\<rparr>"

definition battery_at_corner :: item where
  "battery_at_corner = (Item ''Battery'' ''E-Waste'' ''Never bin batteries!'' 790 490 0 0 C_EWASTE 0)
               \<lparr>dragging := True\<rparr>"

definition battery_above :: item where
  "battery_above = (Item ''Battery'' ''E-Waste'' ''Never bin batteries!'' 830 480 0 0 C_EWASTE 0)
               \<lparr>dragging := True\<rparr>"

definition paused_drag :: game where
  "paused_drag = handle_event (KEYDOWN K_p) (fresh\<lparr>items := [battery]\<rparr>)"

text \<open>
  A session with a new high score. SPACE starts the game and a Battery spawns on tick
  75 at x = 100. After tick 83 the player grabs it at the top of the screen, carries
  it over the E-Waste bin and lets go: score 55. Then a frame that took 50 seconds ends
  the level with the target unmet, on a file system that does \<open>d\<close> with the write, and
  R restarts.
\<close>

definition carry_to_bin :: "frame list" where
  "carry_to_bin =
     input (KEYDOWN K_SPACE) # replicate 82 (idle rnd0) @
     [input (MOUSEBUTTONDOWN 1 (110, 0)), input (MOUSEMOTION (870, 560)),
      input (MOUSEBUTTONUP 1 (870, 560))]"

definition time_out :: "disk_state \<Rightarrow> frame" where
  "time_out d = \<lparr>frame_dt = 50, frame_events = [], frame_rnd = rnd0, frame_disk = d\<rparr>"

definition high_score_session :: "disk_state \<Rightarrow> frame list" where
  "high_score_session d = carry_to_bin @ [time_out d, input (KEYDOWN K_r)]"

text \<open>The game after \<open>carry_to_bin\<close>.\<close>

definition played :: game where
  "played = fresh\<lparr>score := 55, streak := 1, frames_since_spawn := 11,
     level_time_left := 48.624, tip_timer := 3.484,
     tip_message := CORRECT_MARK @ '' Battery: Never bin batteries!''\<rparr>"

text \<open>
  What a session says about the high score: the in-memory value, the file, and the
  accesses to the file.
\<close>

definition hs_view :: "game \<Rightarrow> int \<times> hsfile \<times> io list" where
  "hs_view s = (hiscore s, hs_file s, io_trace s)"

text \<open>
  Three items in play: a falling Can, and two Batteries that are both dragged, the
  first above the E-Waste bin and touching no bin, the second over it.
\<close>

definition two_held :: game where
  "two_held = fresh\<lparr>items := [falling_can, battery_above, battery]\<rparr>"

section \<open>Properties\<close>

subsection \<open>Evaluation of the fixed tables\<close>

lemma build_bins_eq:
  "build_bins =
     [Bin ''Paper'' C_PAPER (Rect 20 520 176 110), Bin ''Plastic'' C_PLASTIC (Rect 216 520 176 110),
      Bin ''Metal'' C_METAL (Rect 412 520 176 110), Bin ''Organic'' C_ORGANIC (Rect 608 520 176 110),
      Bin ''E-Waste'' C_EWASTE (Rect 804 520 176 110)]"
  by (simp add: build_bins_def BINS_def SCREEN_W_def SCREEN_H_def enumerate_eq_zip upt_rec)

lemma fresh_eq:
  "fresh = \<lparr>items = [], score = 0, hiscore = 0, lives = 3, level = 0,
       level_time_left = 50, level_target = 200, frames_since_spawn = 0, streak = 0,
       tip_message = [], tip_timer = 0, state = PLAYING, bins = build_bins, muted = False,
       running = True, hs_file = Absent, disk = Writable, io_trace = [Read]\<rparr>"
  by (simp add: fresh_def Game_init_def reset_def load_hiscore_def file_value_def LEVELS_def
      LIVES_START_def)

lemma battery_hits_ewaste:
  "place_in_bins build_bins (battery\<lparr>dragging := False\<rparr>) s =
     register_hit True (CORRECT_MARK @ '' Battery: Never bin batteries!'')
       (s\<lparr>items := remove1 (battery\<lparr>dragging := False\<rparr>) (items s)\<rparr>)"
  by (simp add: build_bins_eq Bin_def Rect_def colliderect_def Item_rect_def battery_def Item_def
      py_int_def Let_def drop_tip_def)

subsection \<open>Scoring of a correct placement\<close>

text \<open>
  C1. A correct placement, resolved by \<open>register_hit\<close> with \<open>correct = True\<close>, adds 1
  to the streak and adds 50 + min (5 * streak, 150) to the score, the streak being the
  one already incremented. In a fresh session, releasing a Battery over the E-Waste bin
  gives score 55 and streak 1, and three correct drops in a row give the scores 55, 115
  and 180.
\<close>

theorem register_hit_correct:
  "streak (register_hit True tp s) = streak s + 1 \<and>
   score (register_hit True tp s) = score s + (50 + min (5 * (streak s + 1)) 150) \<and>
   score (handle_mouse_up (850, 560) (fresh\<lparr>items := [battery]\<rparr>)) = 55 \<and>
   streak (handle_mouse_up (850, 560) (fresh\<lparr>items := [battery]\<rparr>)) = 1 \<and>
   score (correct_drops [t1] fresh) = 55 \<and>
   score (correct_drops [t1, t2] fresh) = 115 \<and>
   score (correct_drops [t1, t2, t3] fresh) = 180 \<and>
   streak (correct_drops [t1, t2, t3] fresh) = 3"
proof -
  have gen: "streak (register_hit True tp s) = streak s + 1 \<and>
      score (register_hit True tp s) = score s + (50 + min (5 * (streak s + 1)) 150)" for tp s
    by (simp add: register_hit_def Let_def)
  have drop: "handle_mouse_up (850, 560) (fresh\<lparr>items := [battery]\<rparr>) =
      register_hit True (CORRECT_MARK @ '' Battery: Never bin batteries!'') fresh"
    by (simp add: handle_mouse_up_def fresh_eq battery_hits_ewaste Let_def)
      (simp add: battery_def)
  have s0: "score fresh = 0" "streak fresh = 0"
    by (simp_all add: fresh_eq)
  show ?thesis
    by (simp add: gen drop s0)
qed

subsection \<open>Runs of correct drops\<close>

lemma correct_drops_append:
  "correct_drops (tps @ tps') s = correct_drops tps' (correct_drops tps s)"
  by (induction tps arbitrary: s) simp_all

lemma streak_correct_drops:
  "streak (correct_drops tps s) = streak s + int (length tps)"
  by (induction tps arbitrary: s) (simp_all add: register_hit_def Let_def)

text \<open>
  C2, as stated: the gain of a correct drop is computed from the streak held before the
  increment, so that the first correct drop adds 50. It fails in a fresh session, where
  the first correct drop adds 55.
\<close>

theorem pre_increment_bonus_counterexample:
  "score (register_hit True [] fresh) \<noteq> score fresh + (50 + min (5 * streak fresh) 150)"
  by (simp add: register_hit_def Let_def fresh_eq)

text \<open>
  C2, amended: in every run of correct drops that starts from a streak that is not
  negative, each drop raises the score strictly, by 50 + min (5 * streak, 150) where
  streak is the value after the increment made for that drop, that is one more than
  the streak held before the drop.
\<close>

theorem correct_drops_gain:
  assumes "0 \<le> streak s"
  shows "score (correct_drops (tps @ [tp]) s) =
           score (correct_drops tps s) + (50 + min (5 * (streak (correct_drops tps s) + 1)) 150) \<and>
         score (correct_drops tps s) < score (correct_drops (tps @ [tp]) s) \<and>
         streak (correct_drops (tps @ [tp]) s) = streak (correct_drops tps s) + 1"
proof -
  let ?m = "correct_drops tps s"
  have step: "correct_drops (tps @ [tp]) s = register_hit True tp ?m"
    by (simp add: correct_drops_append)
  have nonneg: "0 \<le> streak ?m"
    using assms by (simp add: streak_correct_drops)
  have gain: "score (register_hit True tp ?m) = score ?m + (50 + min (5 * (streak ?m + 1)) 150)"
    by (simp add: register_hit_def Let_def)
  have more: "0 < 50 + min (5 * (streak ?m + 1)) 150"
    using nonneg by simp
  have st: "streak (register_hit True tp ?m) = streak ?m + 1"
    by (simp add: register_hit_def Let_def)
  from gain more st show ?thesis
    unfolding step by simp
qed

theorem correct_drops_gain_witness:
  "0 \<le> streak fresh \<and> score (correct_drops ([''a''] @ [''b'']) fresh) = 115 \<and>
   score (correct_drops [''a''] fresh) = 55 \<and> streak (correct_drops ([''a''] @ [''b'']) fresh) = 2"
proof -
  have h: "0 \<le> streak fresh" by (simp add: fresh_eq)
  have a: "score (correct_drops [''a''] fresh) = 55" "streak (correct_drops [''a''] fresh) = 1"
    by (simp_all add: register_hit_def Let_def fresh_eq)
  show ?thesis
    using h a correct_drops_gain [OF h, of "[''a'']" "''b''"] by simp
qed

subsection \<open>Misses and wrong placements\<close>

lemma register_miss_fields:
  "streak (register_miss s) = 0" "lives (register_miss s) = lives s - 1"
  "state (register_miss s) = (if lives s - 1 \<le> 0 then GAMEOVER else state s)"
  "score (register_miss s) = score s" "items (register_miss s) = items s"
  by (simp_all add: register_miss_def game_over_def save_hiscore_def Let_def
      split: disk_state.split)

lemma wrong_bin:
  "place_in_bins build_bins (battery_on_paper\<lparr>dragging := False\<rparr>) s =
     register_hit False (WRONG_MARK @ '' Battery goes in E-Waste bin.'')
       (s\<lparr>items := remove1 (battery_on_paper\<lparr>dragging := False\<rparr>) (items s)\<rparr>)"
  by (simp add: build_bins_eq Bin_def Rect_def colliderect_def Item_rect_def battery_on_paper_def
      Item_def py_int_def Let_def drop_tip_def)

text \<open>
  C3. A miss (\<open>register_miss\<close>) and a wrong placement (\<open>register_hit\<close> with
  \<open>correct = False\<close>) set the streak to 0 and take exactly one life, and the state is
  GAMEOVER in the same call when the lives left are 0 or less. With one life, a Battery
  released over the Paper bin leaves 0 lives and the state GAMEOVER; so does a Can that
  falls past the bottom during a tick.
\<close>

theorem miss_costs_life:
  "streak (register_miss s) = 0 \<and> lives (register_miss s) = lives s - 1 \<and>
   state (register_miss s) = (if lives s - 1 \<le> 0 then GAMEOVER else state s) \<and>
   streak (register_hit False tp s) = 0 \<and> lives (register_hit False tp s) = lives s - 1 \<and>
   state (register_hit False tp s) = (if lives s - 1 \<le> 0 then GAMEOVER else state s) \<and>
   lives (handle_mouse_up (60, 560) (fresh\<lparr>lives := 1, items := [battery_on_paper]\<rparr>)) = 0 \<and>
   state (handle_mouse_up (60, 560) (fresh\<lparr>lives := 1, items := [battery_on_paper]\<rparr>)) = GAMEOVER \<and>
   update 0.016 rnd0 (fresh\<lparr>lives := 1, items := [sinking]\<rparr>) =
     Inr (fresh\<lparr>lives := 0, items := [], state := GAMEOVER, frames_since_spawn := 1,
               level_time_left := 49.984\<rparr>)"
proof -
  have drop: "handle_mouse_up (60, 560) (fresh\<lparr>lives := 1, items := [battery_on_paper]\<rparr>) =
      register_hit False (WRONG_MARK @ '' Battery goes in E-Waste bin.'')
        (fresh\<lparr>lives := 1, items := []\<rparr>)"
    by (simp add: handle_mouse_up_def fresh_eq wrong_bin Let_def)
      (simp add: battery_on_paper_def)
  have hit: "streak (register_hit False tp s) = 0 \<and> lives (register_hit False tp s) = lives s - 1 \<and>
      state (register_hit False tp s) = (if lives s - 1 \<le> 0 then GAMEOVER else state s)" for tp s
    by (simp add: register_hit_def register_miss_fields)
  have fall: "update 0.016 rnd0 (fresh\<lparr>lives := 1, items := [sinking]\<rparr>) =
     Inr (fresh\<lparr>lives := 0, items := [], state := GAMEOVER, frames_since_spawn := 1,
               level_time_left := 49.984\<rparr>)"
    by (simp add: update_def spawn_tick_def fresh_eq LEVELS_def sinking_def Item_def Item_update_def
        SCREEN_H_def register_miss_def game_over_def tip_tick_def level_timer_def Let_def)
  show ?thesis
    using fall by (simp add: register_miss_fields hit drop)
qed

theorem miss_costs_life_witness:
  "lives (register_miss (fresh\<lparr>lives := 1\<rparr>)) = 0 \<and>
   state (register_miss (fresh\<lparr>lives := 1\<rparr>)) = GAMEOVER"
  using miss_costs_life [of "fresh\<lparr>lives := 1\<rparr>"] by (simp add: fresh_eq)

subsection \<open>Releasing a dragged item\<close>

lemma first_dragging_Some:
  "first_dragging its = Some i \<Longrightarrow>
     i < length its \<and> dragging (its ! i) \<and> (\<forall>j<i. \<not> dragging (its ! j))"
proof (induction its arbitrary: i)
  case Nil
  then show ?case by simp
next
  case (Cons it its)
  show ?case
  proof (cases "dragging it")
    case True
    with Cons.prems show ?thesis by simp
  next
    case False
    with Cons.prems obtain k where k: "first_dragging its = Some k" "i = Suc k"
      by auto
    from Cons.IH [OF k(1)] False k(2) show ?thesis
      by (auto simp: less_Suc_eq_0_disj)
  qed
qed

lemma place_in_bins_find:
  "place_in_bins bs it s =
     (case find (\<lambda>b. colliderect (bin_rect b) (Item_rect it)) bs of
        None \<Rightarrow> s
      | Some b \<Rightarrow> register_hit (category it = label b) (drop_tip (category it = label b) it)
                    (s\<lparr>items := remove1 it (items s)\<rparr>))"
  by (induction bs) (simp_all add: Let_def)

lemma items_register_hit: "items (register_hit c tp s) = items s"
  by (simp add: register_hit_def register_miss_def game_over_def save_hiscore_def Let_def
      split: disk_state.split)

lemma mset_remove1_update:
  "i < length xs \<Longrightarrow> mset (xs[i := v]) - {#v#} = mset xs - {#xs ! i#}"
  by (simp add: mset_update)

subsection \<open>What a tick leaves alone\<close>

lemma ITEMS_colours: "list_all (\<lambda>(n, c, t). map_of category_color c \<noteq> None) ITEMS"
  by (simp add: ITEMS_def category_color_def C_PAPER_def C_PLASTIC_def C_METAL_def C_ORGANIC_def
      C_EWASTE_def)

lemma ITEMS_have_colour:
  "(n, c, t) \<in> set ITEMS \<Longrightarrow> \<exists>col. map_of category_color c = Some col"
  using ITEMS_colours by (auto simp: list_all_iff)

lemma spawn_item_ok:
  assumes "pick r \<in> fst ` set ITEMS"
  shows "\<exists>c t col. spawn_item r s =
           Inr (s\<lparr>items := items s @
                  [Item (pick r) c t (real_of_int (rnd_x r)) (- 50) (rnd_vx r) (rnd_vy r) col
                     (rnd_rot_speed r)]\<rparr>)"
proof -
  from assms have "map_of ITEMS (pick r) \<noteq> None"
    by (simp add: map_of_eq_None_iff)
  then obtain c t where ct: "map_of ITEMS (pick r) = Some (c, t)"
    by auto
  then have "(pick r, c, t) \<in> set ITEMS" by (rule map_of_SomeD)
  from ITEMS_have_colour [OF this]
  obtain col where col: "map_of category_color c = Some col" ..
  have "spawn_item r s =
           Inr (s\<lparr>items := items s @
                  [Item (pick r) c t (real_of_int (rnd_x r)) (- 50) (rnd_vx r) (rnd_vy r) col
                     (rnd_rot_speed r)]\<rparr>)"
    by (simp add: spawn_item_def ct col)
  then show ?thesis by blast
qed

lemma spawn_tick_ok:
  assumes "level s < length LEVELS" and "pick r \<in> fst ` set ITEMS"
  shows "\<exists>s2. spawn_tick r s = Inr s2 \<and> score s2 = score s \<and> lives s2 = lives s \<and>
           level s2 = level s \<and> level_target s2 = level_target s \<and>
           level_time_left s2 = level_time_left s \<and> state s2 = state s \<and>
           hiscore s2 = hiscore s \<and> hs_file s2 = hs_file s \<and> io_trace s2 = io_trace s"
proof (cases "fst (snd (LEVELS ! level s)) \<le> frames_since_spawn s + 1")
  case True
  from spawn_item_ok [OF assms(2), of "s\<lparr>frames_since_spawn := frames_since_spawn s + 1,
      frames_since_spawn := 0\<rparr>"]
  obtain s2 it where s2: "spawn_item r (s\<lparr>frames_since_spawn := frames_since_spawn s + 1,
      frames_since_spawn := 0\<rparr>) = Inr s2"
    "s2 = s\<lparr>frames_since_spawn := frames_since_spawn s + 1, frames_since_spawn := 0,
      items := items s @ [it]\<rparr>"
    by auto
  have "spawn_tick r s = Inr s2"
    using True assms(1) s2(1) by (simp add: spawn_tick_def Let_def)
  then show ?thesis
    by (simp add: s2(2))
next
  case False
  with assms(1) show ?thesis
    by (simp add: spawn_tick_def Let_def)
qed

lemma register_miss_round:
  "level (register_miss s) = level s" "level_target (register_miss s) = level_target s"
  "level_time_left (register_miss s) = level_time_left s"
  "tip_timer (register_miss s) = tip_timer s" "tip_message (register_miss s) = tip_message s"
  by (simp_all add: register_miss_def game_over_def save_hiscore_def Let_def
      split: disk_state.split)

lemma update_items_round:
  "score (update_items n i g s) = score s \<and> level (update_items n i g s) = level s \<and>
   level_target (update_items n i g s) = level_target s \<and>
   level_time_left (update_items n i g s) = level_time_left s"
  by (induction n arbitrary: i s) (simp_all add: Let_def register_miss_fields register_miss_round)

lemma tip_tick_round:
  "score (tip_tick dt s) = score s" "level (tip_tick dt s) = level s"
  "level_target (tip_tick dt s) = level_target s" "level_time_left (tip_tick dt s) = level_time_left s"
  "items (tip_tick dt s) = items s" "lives (tip_tick dt s) = lives s"
  "state (tip_tick dt s) = state s" "streak (tip_tick dt s) = streak s"
  "hiscore (tip_tick dt s) = hiscore s" "hs_file (tip_tick dt s) = hs_file s"
  "io_trace (tip_tick dt s) = io_trace s"
  by (simp_all add: tip_tick_def Let_def)

lemma game_over_fields:
  "state (game_over s) = GAMEOVER" "level (game_over s) = level s" "items (game_over s) = items s"
  "lives (game_over s) = lives s" "score (game_over s) = score s" "streak (game_over s) = streak s"
  by (simp_all add: game_over_def save_hiscore_def Let_def split: disk_state.split)

lemma level_timer_expired:
  assumes "level_time_left s - dt \<le> 0"
  shows "if level_target s \<le> score s \<and> level s + 1 < length LEVELS
         then level (level_timer dt s) = level s + 1 \<and>
              level_time_left (level_timer dt s) = fst (snd (snd (LEVELS ! (level s + 1)))) \<and>
              level_target (level_timer dt s) = snd (snd (snd (LEVELS ! (level s + 1))))
         else state (level_timer dt s) = GAMEOVER \<and> level (level_timer dt s) = level s"
proof -
  have idx: "(int (level s) < int (length LEVELS) - 1) = (level s + 1 < length LEVELS)"
    by auto
  show ?thesis
    using assms by (simp add: level_timer_def Let_def idx game_over_fields)
qed

lemma items_level_timer: "items (level_timer dt s) = items s"
  by (simp add: level_timer_def Let_def game_over_fields)

lemma lives_level_timer: "lives (level_timer dt s) = lives s"
  by (simp add: level_timer_def Let_def game_over_fields)

subsection \<open>The level timer\<close>

text \<open>
  C5. In the PLAYING state, on a tick whose frame time brings \<open>level_time_left\<close> to 0
  or below: if the score is at least \<open>level_target\<close> and the level is not the last one,
  the level goes up by exactly 1 and \<open>level_time_left\<close> and \<open>level_target\<close> are set
  from the new row of \<open>LEVELS\<close>; otherwise the state is GAMEOVER after that tick and
  the level is unchanged. The tick returns (the level is a valid index and the spawn
  draws a name of the catalog).
\<close>

theorem level_timeout:
  assumes "state s = PLAYING" and "level s < length LEVELS" and "pick r \<in> fst ` set ITEMS"
    and "level_time_left s - dt \<le> 0"
  shows "\<exists>s'. update dt r s = Inr s' \<and>
           (if level_target s \<le> score s \<and> level s + 1 < length LEVELS
            then level s' = level s + 1 \<and>
                 level_time_left s' = fst (snd (snd (LEVELS ! (level s + 1)))) \<and>
                 level_target s' = snd (snd (snd (LEVELS ! (level s + 1))))
            else state s' = GAMEOVER \<and> level s' = level s)"
proof -
  from spawn_tick_ok [OF assms(2,3)] obtain s2 where
    s2: "spawn_tick r s = Inr s2" "score s2 = score s" "level s2 = level s"
      "level_target s2 = level_target s" "level_time_left s2 = level_time_left s"
    by blast
  let ?m = "tip_tick dt (update_items (length (items s2)) 0 (fst (LEVELS ! level s)) s2)"
  have upd: "update dt r s = Inr (level_timer dt ?m)"
    using assms(1) s2(1) by (simp add: update_def Let_def)
  have same: "score ?m = score s" "level ?m = level s" "level_target ?m = level_target s"
    "level_time_left ?m = level_time_left s"
    using s2 by (simp_all add: tip_tick_round update_items_round)
  from assms(4) have "level_time_left ?m - dt \<le> 0"
    by (simp add: same)
  from level_timer_expired [OF this] show ?thesis
    unfolding upd same by blast
qed

theorem level_timeout_witness:
  "state (fresh\<lparr>score := 200, level_time_left := 0.01\<rparr>) = PLAYING \<and>
   pick rnd0 \<in> fst ` set ITEMS \<and>
   (\<exists>s'. update 0.016 rnd0 (fresh\<lparr>score := 200, level_time_left := 0.01\<rparr>) = Inr s' \<and>
      level s' = 1 \<and> level_time_left s' = 55 \<and> level_target s' = 450)"
proof -
  let ?s = "fresh\<lparr>score := 200, level_time_left := 0.01\<rparr>"
  have h1: "state ?s = PLAYING" by (simp add: fresh_eq)
  have h2: "level ?s < length LEVELS" by (simp add: fresh_eq LEVELS_def)
  have h3: "pick rnd0 \<in> fst ` set ITEMS" by (simp add: rnd0_def ITEMS_def)
  have h4: "level_time_left ?s - 0.016 \<le> 0" by simp
  have v: "level_target ?s = 200" "score ?s = 200" "level ?s = 0"
    by (simp_all add: fresh_eq)
  from level_timeout [OF h1 h2 h3 h4] have
    "\<exists>s'. update 0.016 rnd0 ?s = Inr s' \<and> level s' = 1 \<and> level_time_left s' = 55 \<and>
        level_target s' = 450"
    unfolding v by (simp add: LEVELS_def)
  with h1 h3 show ?thesis by blast
qed

subsection \<open>The item loop of a tick\<close>

lemma update_items_scan:
  assumes "i + n = length (items s)" and "\<forall>it \<in> set (take i (items s)). \<not> fell it"
  shows "items (update_items n i g s) =
           take i (items s) @ filter (\<lambda>it. \<not> fell it) (map (\<lambda>it. Item_update it g) (drop i (items s))) \<and>
         lives (update_items n i g s) =
           lives s - int (length (filter fell (map (\<lambda>it. Item_update it g) (drop i (items s)))))"
  using assms
proof (induction n arbitrary: i s)
  case 0
  then show ?case by simp
next
  case (Suc n)
  let ?xs = "items s"
  let ?it = "Item_update (?xs ! i) g"
  let ?rest = "drop (Suc i) ?xs"
  from Suc.prems(1) have i: "i < length ?xs" by simp
  have split: "drop i ?xs = ?xs ! i # ?rest"
    using i by (simp add: Cons_nth_drop_Suc)
  have upd: "?xs[i := ?it] = take i ?xs @ ?it # ?rest"
    using i by (rule upd_conv_take_nth_drop)
  show ?case
  proof (cases "fell ?it")
    case True
    with Suc.prems(2) have notin: "?it \<notin> set (take i ?xs)" by auto
    let ?s' = "register_miss (s\<lparr>items := take i ?xs @ ?rest\<rparr>)"
    have step: "update_items (Suc n) i g s = update_items n i g ?s'"
      using True notin by (simp add: Let_def upd remove1_append fell_def)
    have its: "items ?s' = take i ?xs @ ?rest"
      by (simp add: register_miss_fields)
    have len: "i + n = length (items ?s')"
      using Suc.prems(1) i by (simp add: its)
    have tk: "take i (items ?s') = take i ?xs" and dr: "drop i (items ?s') = ?rest"
      using i by (simp_all add: its)
    have pre: "\<forall>it \<in> set (take i (items ?s')). \<not> fell it"
      using Suc.prems(2) by (simp add: tk)
    from Suc.IH [OF len pre] True show ?thesis
      unfolding step tk dr split by (simp add: register_miss_fields)
  next
    case False
    let ?s' = "s\<lparr>items := ?xs[i := ?it]\<rparr>"
    have step: "update_items (Suc n) i g s = update_items n (Suc i) g ?s'"
      using False by (simp add: Let_def fell_def)
    have len: "Suc i + n = length (items ?s')"
      using Suc.prems(1) by simp
    have tk: "take (Suc i) (items ?s') = take i ?xs @ [?it]"
      and dr: "drop (Suc i) (items ?s') = ?rest"
      using i by (simp_all add: upd)
    have pre: "\<forall>it \<in> set (take (Suc i) (items ?s')). \<not> fell it"
      using Suc.prems(2) False unfolding tk by auto
    from Suc.IH [OF len pre] False show ?thesis
      unfolding step tk dr split by simp
  qed
qed

lemma spawn_tick_Inr:
  "spawn_tick r s = Inr s2 \<Longrightarrow> lives s2 = lives s \<and> state s2 = state s \<and> level s2 = level s"
  by (auto simp: spawn_tick_def spawn_item_def Let_def split: if_splits option.splits)

lemma update_tick:
  assumes "state s = PLAYING" and "spawn_tick r s = Inr s2"
  shows "update dt r s =
           Inr (level_timer dt (tip_tick dt
                  (update_items (length (items s2)) 0 (fst (LEVELS ! level s)) s2)))"
  using assms by (simp add: update_def Let_def)

lemma update_tick_scan:
  "items (level_timer dt (tip_tick dt (update_items (length (items s2)) 0 g s2))) =
     filter (\<lambda>it. \<not> fell it) (map (\<lambda>it. Item_update it g) (items s2)) \<and>
   lives (level_timer dt (tip_tick dt (update_items (length (items s2)) 0 g s2))) =
     lives s2 - int (length (filter fell (map (\<lambda>it. Item_update it g) (items s2))))"
  using update_items_scan [of 0 "length (items s2)" s2 g]
  by (simp add: items_level_timer lives_level_timer tip_tick_round)

text \<open>
  C10. In one tick of \<open>update\<close> every item is moved and every item that is then past
  the bottom is removed from the list and takes one life: with \<open>k\<close> such items the
  lives go from \<open>n\<close> to \<open>n - k\<close>, whatever the state became on the way, so the lives
  can end below 0. Here \<open>s2\<close> is the game after the spawn step of the tick.
\<close>

theorem misses_in_one_tick:
  assumes "state s = PLAYING" and "spawn_tick r s = Inr s2"
  shows "\<exists>s'. update dt r s = Inr s' \<and>
           items s' = filter (\<lambda>it. \<not> fell it)
                        (map (\<lambda>it. Item_update it (fst (LEVELS ! level s))) (items s2)) \<and>
           lives s' = lives s - int (length (filter fell
                        (map (\<lambda>it. Item_update it (fst (LEVELS ! level s))) (items s2))))"
proof -
  let ?g = "fst (LEVELS ! level s)"
  let ?s' = "level_timer dt (tip_tick dt (update_items (length (items s2)) 0 ?g s2))"
  from update_tick [OF assms] have upd: "update dt r s = Inr ?s'" .
  from update_tick_scan [of dt s2 ?g] spawn_tick_Inr [OF assms(2)]
  have "items ?s' = filter (\<lambda>it. \<not> fell it) (map (\<lambda>it. Item_update it ?g) (items s2)) \<and>
        lives ?s' = lives s - int (length (filter fell (map (\<lambda>it. Item_update it ?g) (items s2))))"
    by simp
  with upd show ?thesis by blast
qed

theorem misses_in_one_tick_witness:
  "state (fresh\<lparr>lives := 1, items := [sinking, sinking2]\<rparr>) = PLAYING \<and>
   (\<exists>s'. update 0.016 rnd0 (fresh\<lparr>lives := 1, items := [sinking, sinking2]\<rparr>) = Inr s' \<and>
      items s' = [] \<and> lives s' = - 1)"
proof -
  let ?s = "fresh\<lparr>lives := 1, items := [sinking, sinking2]\<rparr>"
  have h1: "state ?s = PLAYING" by (simp add: fresh_eq)
  have h2: "spawn_tick rnd0 ?s = Inr (?s\<lparr>frames_since_spawn := 1\<rparr>)"
    by (simp add: spawn_tick_def fresh_eq LEVELS_def Let_def)
  have lv: "level fresh = 0" by (simp add: fresh_eq)
  have f: "fell (Item_update sinking (fst (LEVELS ! 0)))"
    "fell (Item_update sinking2 (fst (LEVELS ! 0)))"
    by (simp_all add: fell_def LEVELS_def sinking_def sinking2_def Item_def Item_update_def
        SCREEN_H_def)
  have l: "lives ?s = 1" "items (?s\<lparr>frames_since_spawn := 1\<rparr>) = [sinking, sinking2]"
    by simp_all
  from misses_in_one_tick [OF h1 h2, of "0.016"]
  have "\<exists>s'. update 0.016 rnd0 ?s = Inr s' \<and> items s' = [] \<and> lives s' = - 1"
    unfolding l by (simp add: f lv)
  with h1 show ?thesis by blast
qed

subsection \<open>Restart\<close>

lemma reset_fields:
  "items (reset full s) = []" "score (reset full s) = 0" "lives (reset full s) = LIVES_START"
  "streak (reset full s) = 0" "level (reset full s) = 0"
  "state (reset full s) = (if full then MENU else PLAYING)"
  "hiscore (reset full s) = file_value (hs_file s)" "hs_file (reset full s) = hs_file s"
  "io_trace (reset full s) = io_trace s @ [Read]"
  "level_time_left (reset full s) = 50" "level_target (reset full s) = 200"
  "frames_since_spawn (reset full s) = 0" "muted (reset full s) = muted s"
  "running (reset full s) = running s"
  by (simp_all add: reset_def load_hiscore_def LEVELS_def Let_def)

text \<open>
  C7. The restart, which the R key triggers in the GAMEOVER state, sets the score to 0,
  the lives to \<open>LIVES_START\<close>, the streak to 0 and the level to 0, empties the item
  list and enters PLAYING. It leaves the high-score file as it is: its only access to the
  file is one read.
\<close>

theorem restart_resets_round:
  assumes "state s = GAMEOVER"
  shows "score (handle_event (KEYDOWN K_r) s) = 0 \<and>
         lives (handle_event (KEYDOWN K_r) s) = LIVES_START \<and>
         streak (handle_event (KEYDOWN K_r) s) = 0 \<and>
         level (handle_event (KEYDOWN K_r) s) = 0 \<and>
         items (handle_event (KEYDOWN K_r) s) = [] \<and>
         state (handle_event (KEYDOWN K_r) s) = PLAYING \<and>
         hs_file (handle_event (KEYDOWN K_r) s) = hs_file s \<and>
         io_trace (handle_event (KEYDOWN K_r) s) = io_trace s @ [Read]"
  using assms by (simp add: reset_fields)

theorem restart_resets_round_witness:
  "state (game_over (fresh\<lparr>score := 120, lives := 0\<rparr>)) = GAMEOVER \<and>
   score (handle_event (KEYDOWN K_r) (game_over (fresh\<lparr>score := 120, lives := 0\<rparr>))) = 0 \<and>
   lives (handle_event (KEYDOWN K_r) (game_over (fresh\<lparr>score := 120, lives := 0\<rparr>))) = 3 \<and>
   hs_file (handle_event (KEYDOWN K_r) (game_over (fresh\<lparr>score := 120, lives := 0\<rparr>))) = Stored 120"
proof -
  let ?s = "game_over (fresh\<lparr>score := 120, lives := 0\<rparr>)"
  have h: "state ?s = GAMEOVER" by (simp add: game_over_fields)
  have f: "hs_file ?s = Stored 120"
    by (simp add: game_over_def save_hiscore_def fresh_eq Let_def)
  from restart_resets_round [OF h] h f show ?thesis
    by (simp add: LIVES_START_def)
qed

subsection \<open>Dragging\<close>

lemma grab_scan_miss:
  "\<forall>j<n. \<not> collidepoint (Item_rect (its ! j)) pos \<Longrightarrow> grab_scan n pos its = its"
  by (induction n) simp_all

lemma grab_scan_hit:
  "i < n \<Longrightarrow> collidepoint (Item_rect (its ! i)) pos \<Longrightarrow>
   \<forall>j. i < j \<and> j < n \<longrightarrow> \<not> collidepoint (Item_rect (its ! j)) pos \<Longrightarrow>
   grab_scan n pos its = its[i := grab (its ! i) pos]"
proof (induction n)
  case 0
  then show ?case by simp
next
  case (Suc n)
  show ?case
  proof (cases "i = n")
    case True
    with Suc.prems show ?thesis by simp
  next
    case False
    with Suc.prems have "i < n" "\<not> collidepoint (Item_rect (its ! n)) pos" by auto
    with Suc show ?thesis by simp
  qed
qed

text \<open>
  C6, as stated: while an item is dragged its velocity is forced to zero, so that on
  release it does not keep the velocity it had before the grab. A Can falling with
  vertical velocity 3 is grabbed, a tick passes, and it is released with no pointer-move
  in between: it is dragged with velocity 3, and after the release it falls on with
  velocity 3.
\<close>

theorem drag_velocity_counterexample:
  "map dragging (items grabbed_can) = [True] \<and> map vy (items grabbed_can) = [3] \<and>
   map_sum id items click_release =
     Inr [falling_can\<lparr>grabbed_dx := - 10, grabbed_dy := - 10\<rparr>] \<and>
   vy (falling_can\<lparr>grabbed_dx := - 10, grabbed_dy := - 10\<rparr>) = 3"
proof -
  have g: "grabbed_can = fresh\<lparr>items := [falling_can\<lparr>dragging := True, grabbed_dx := - 10,
      grabbed_dy := - 10\<rparr>]\<rparr>"
    by (simp add: grabbed_can_def handle_mouse_down_def fresh_eq falling_can_def Item_def
        Item_rect_def Rect_def py_int_def collidepoint_def grab_def)
  have u: "update 0.016 rnd0 grabbed_can =
      Inr (grabbed_can\<lparr>frames_since_spawn := 1, level_time_left := 49.984\<rparr>)"
    unfolding g
    by (simp add: update_def spawn_tick_def fresh_eq LEVELS_def Item_update_def SCREEN_H_def
        tip_tick_def level_timer_def falling_can_def Item_def Let_def)
  have r: "items (handle_mouse_up (410, 210)
        (grabbed_can\<lparr>frames_since_spawn := 1, level_time_left := 49.984\<rparr>)) =
      [falling_can\<lparr>grabbed_dx := - 10, grabbed_dy := - 10\<rparr>]"
    unfolding g
    by (simp add: handle_mouse_up_def fresh_eq build_bins_eq Bin_def Rect_def colliderect_def
        Item_rect_def py_int_def falling_can_def Item_def Let_def)
  have v: "map dragging (items grabbed_can) = [True]" "map vy (items grabbed_can) = [3]"
    "vy (falling_can\<lparr>grabbed_dx := - 10, grabbed_dy := - 10\<rparr>) = 3"
    by (simp_all add: g falling_can_def Item_def)
  show ?thesis
    using u r by (simp add: v click_release_def)
qed

text \<open>
  C6, amended. \<open>Item.update\<close> leaves a dragged item as it is: no gravity, no change of
  position or rotation. A grab takes the last item of the list whose rectangle holds
  the pointer, sets its flag and stores the offset from the pointer to the item, and
  leaves its position and velocity as they were. A pointer-move handled in the PLAYING
  state puts every dragged item at the pointer position plus its stored offset and sets
  its velocity to zero, and leaves the other items alone. The velocity is set to zero
  by pointer-moves only.
\<close>

theorem drag_kinematics:
  "(dragging it \<longrightarrow> Item_update it g = it) \<and>
   dragging (grab it pos) \<and>
   grabbed_dx (grab it pos) = item_x it - real_of_int (fst pos) \<and>
   grabbed_dy (grab it pos) = item_y it - real_of_int (snd pos) \<and>
   item_x (grab it pos) = item_x it \<and> item_y (grab it pos) = item_y it \<and>
   vx (grab it pos) = vx it \<and> vy (grab it pos) = vy it \<and>
   (state s = PLAYING \<longrightarrow> i < length (items s) \<longrightarrow>
      collidepoint (Item_rect (items s ! i)) pos \<longrightarrow>
      (\<forall>j. i < j \<and> j < length (items s) \<longrightarrow> \<not> collidepoint (Item_rect (items s ! j)) pos) \<longrightarrow>
      items (handle_mouse_down pos s) = (items s)[i := grab (items s ! i) pos]) \<and>
   (state s = PLAYING \<longrightarrow> items (handle_mouse_motion pos s) = map (drag_to pos) (items s)) \<and>
   (dragging it \<longrightarrow>
      item_x (drag_to pos it) = real_of_int (fst pos) + grabbed_dx it \<and>
      item_y (drag_to pos it) = real_of_int (snd pos) + grabbed_dy it \<and>
      vx (drag_to pos it) = 0 \<and> vy (drag_to pos it) = 0 \<and> dragging (drag_to pos it)) \<and>
   (\<not> dragging it \<longrightarrow> drag_to pos it = it)"
proof -
  have down: "state s = PLAYING \<longrightarrow> i < length (items s) \<longrightarrow>
      collidepoint (Item_rect (items s ! i)) pos \<longrightarrow>
      (\<forall>j. i < j \<and> j < length (items s) \<longrightarrow> \<not> collidepoint (Item_rect (items s ! j)) pos) \<longrightarrow>
      items (handle_mouse_down pos s) = (items s)[i := grab (items s ! i) pos]"
    by (simp add: handle_mouse_down_def grab_scan_hit)
  have rest: "(dragging it \<longrightarrow> Item_update it g = it) \<and>
   dragging (grab it pos) \<and>
   grabbed_dx (grab it pos) = item_x it - real_of_int (fst pos) \<and>
   grabbed_dy (grab it pos) = item_y it - real_of_int (snd pos) \<and>
   item_x (grab it pos) = item_x it \<and> item_y (grab it pos) = item_y it \<and>
   vx (grab it pos) = vx it \<and> vy (grab it pos) = vy it \<and>
   (state s = PLAYING \<longrightarrow> items (handle_mouse_motion pos s) = map (drag_to pos) (items s)) \<and>
   (dragging it \<longrightarrow>
      item_x (drag_to pos it) = real_of_int (fst pos) + grabbed_dx it \<and>
      item_y (drag_to pos it) = real_of_int (snd pos) + grabbed_dy it \<and>
      vx (drag_to pos it) = 0 \<and> vy (drag_to pos it) = 0 \<and> dragging (drag_to pos it)) \<and>
   (\<not> dragging it \<longrightarrow> drag_to pos it = it)"
    by (simp add: Item_update_def grab_def handle_mouse_motion_def drag_to_def)
  from down rest show ?thesis by blast
qed

theorem drag_kinematics_witness:
  "dragging battery \<and> Item_update battery 2.4 = battery \<and>
   state grabbed_can = PLAYING \<and>
   map item_x (items (handle_mouse_motion (500, 300) grabbed_can)) = [490] \<and>
   map item_y (items (handle_mouse_motion (500, 300) grabbed_can)) = [290] \<and>
   map vy (items (handle_mouse_motion (500, 300) grabbed_can)) = [0]"
proof -
  have g: "grabbed_can = fresh\<lparr>items := [falling_can\<lparr>dragging := True, grabbed_dx := - 10,
      grabbed_dy := - 10\<rparr>]\<rparr>"
    by (simp add: grabbed_can_def handle_mouse_down_def fresh_eq falling_can_def Item_def
        Item_rect_def Rect_def py_int_def collidepoint_def grab_def)
  have d: "dragging battery" by (simp add: battery_def)
  have p: "state grabbed_can = PLAYING" by (simp add: g fresh_eq)
  have c: "dragging (falling_can\<lparr>dragging := True, grabbed_dx := - 10, grabbed_dy := - 10\<rparr>)"
    by simp
  from drag_kinematics [of battery "2.4" "(500, 300)" grabbed_can 0] d
  have a: "Item_update battery 2.4 = battery"
    and m: "items (handle_mouse_motion (500, 300) grabbed_can) =
              map (drag_to (500, 300)) (items grabbed_can)"
    using p by blast+
  from drag_kinematics [of "falling_can\<lparr>dragging := True, grabbed_dx := - 10, grabbed_dy := - 10\<rparr>"
      "2.4" "(500, 300)" grabbed_can 0] c
  have k: "item_x (drag_to (500, 300)
              (falling_can\<lparr>dragging := True, grabbed_dx := - 10, grabbed_dy := - 10\<rparr>)) = 490"
    "item_y (drag_to (500, 300)
              (falling_can\<lparr>dragging := True, grabbed_dx := - 10, grabbed_dy := - 10\<rparr>)) = 290"
    "vy (drag_to (500, 300)
              (falling_can\<lparr>dragging := True, grabbed_dx := - 10, grabbed_dy := - 10\<rparr>)) = 0"
    by simp_all
  have its: "items grabbed_can =
      [falling_can\<lparr>dragging := True, grabbed_dx := - 10, grabbed_dy := - 10\<rparr>]"
    by (simp add: g)
  from d a p k show ?thesis
    unfolding m its by simp
qed

subsection \<open>How many items are dragged\<close>

lemma map_of_ITEMS_rnd:
  "map_of ITEMS ''Battery'' = Some (''E-Waste'', ''Never bin batteries!'')"
  "map_of ITEMS ''Bottle'' = Some (''Plastic'', ''Empty and crush to save space.'')"
  by (simp_all add: ITEMS_def)

lemma grab_scan_cases:
  "((\<forall>j<n. \<not> collidepoint (Item_rect (its ! j)) pos) \<and> grab_scan n pos its = its) \<or>
   (\<exists>i<n. collidepoint (Item_rect (its ! i)) pos \<and>
      (\<forall>j. i < j \<and> j < n \<longrightarrow> \<not> collidepoint (Item_rect (its ! j)) pos) \<and>
      grab_scan n pos its = its[i := grab (its ! i) pos])"
proof (induction n)
  case 0
  then show ?case by simp
next
  case (Suc n)
  show ?case
  proof (cases "collidepoint (Item_rect (its ! n)) pos")
    case True
    then have "n < Suc n \<and> collidepoint (Item_rect (its ! n)) pos \<and>
        (\<forall>j. n < j \<and> j < Suc n \<longrightarrow> \<not> collidepoint (Item_rect (its ! j)) pos) \<and>
        grab_scan (Suc n) pos its = its[n := grab (its ! n) pos]"
      by auto
    then show ?thesis by blast
  next
    case False
    then have same: "grab_scan (Suc n) pos its = grab_scan n pos its" by simp
    from Suc.IH show ?thesis
    proof
      assume "(\<forall>j<n. \<not> collidepoint (Item_rect (its ! j)) pos) \<and> grab_scan n pos its = its"
      with False same have "(\<forall>j<Suc n. \<not> collidepoint (Item_rect (its ! j)) pos) \<and>
          grab_scan (Suc n) pos its = its"
        by (auto simp: less_Suc_eq)
      then show ?thesis by blast
    next
      assume "\<exists>i<n. collidepoint (Item_rect (its ! i)) pos \<and>
        (\<forall>j. i < j \<and> j < n \<longrightarrow> \<not> collidepoint (Item_rect (its ! j)) pos) \<and>
        grab_scan n pos its = its[i := grab (its ! i) pos]"
      then obtain i where i: "i < n" "collidepoint (Item_rect (its ! i)) pos"
        "\<forall>j. i < j \<and> j < n \<longrightarrow> \<not> collidepoint (Item_rect (its ! j)) pos"
        "grab_scan n pos its = its[i := grab (its ! i) pos]"
        by blast
      from i(3) False have "\<forall>j. i < j \<and> j < Suc n \<longrightarrow> \<not> collidepoint (Item_rect (its ! j)) pos"
        by (auto simp: less_Suc_eq)
      with i same have "i < Suc n \<and> collidepoint (Item_rect (its ! i)) pos \<and>
          (\<forall>j. i < j \<and> j < Suc n \<longrightarrow> \<not> collidepoint (Item_rect (its ! j)) pos) \<and>
          grab_scan (Suc n) pos its = its[i := grab (its ! i) pos]"
        by simp
      then show ?thesis by blast
    qed
  qed
qed

lemma length_filter_filter_le:
  "length (filter P (filter Q xs)) \<le> length (filter P xs)"
  by (induction xs) auto

lemma filter_update_le: "length (filter P (xs[i := v])) \<le> Suc (length (filter P xs))"
proof (induction xs arbitrary: i)
  case Nil
  then show ?case by simp
next
  case (Cons x xs)
  then show ?case by (cases i) (auto simp: le_SucI)
qed

lemma undrag_first:
  "first_dragging xs = Some i \<Longrightarrow> \<not> dragging v \<Longrightarrow>
     length (filter dragging (xs[i := v])) = length (filter dragging xs) - 1"
proof (induction xs arbitrary: i)
  case Nil
  then show ?case by simp
next
  case (Cons x xs)
  show ?case
  proof (cases "dragging x")
    case True
    with Cons.prems show ?thesis by simp
  next
    case False
    with Cons.prems obtain k where k: "first_dragging xs = Some k" "i = Suc k" by auto
    from Cons.IH [OF k(1) Cons.prems(2)] False show ?thesis by (simp add: k(2))
  qed
qed

lemma first_dragging_None: "first_dragging xs = None \<Longrightarrow> filter dragging xs = []"
  by (induction xs) (auto split: if_splits)

lemma remove1_not_dragging:
  "\<not> dragging v \<Longrightarrow> filter dragging (remove1 v xs) = filter dragging xs"
  by (induction xs) auto

lemma mouse_down_cases:
  "handle_mouse_down pos s = s \<or>
   (\<exists>i<length (items s). collidepoint (Item_rect (items s ! i)) pos \<and>
      (\<forall>j. i < j \<and> j < length (items s) \<longrightarrow> \<not> collidepoint (Item_rect (items s ! j)) pos) \<and>
      handle_mouse_down pos s = s\<lparr>items := (items s)[i := grab (items s ! i) pos]\<rparr>)"
proof (cases "state s = PLAYING")
  case False
  then show ?thesis by (simp add: handle_mouse_down_def)
next
  case True
  from grab_scan_cases [of "length (items s)" "items s" pos] show ?thesis
  proof
    assume "(\<forall>j<length (items s). \<not> collidepoint (Item_rect (items s ! j)) pos) \<and>
      grab_scan (length (items s)) pos (items s) = items s"
    then show ?thesis by (simp add: handle_mouse_down_def)
  next
    assume "\<exists>i<length (items s). collidepoint (Item_rect (items s ! i)) pos \<and>
      (\<forall>j. i < j \<and> j < length (items s) \<longrightarrow> \<not> collidepoint (Item_rect (items s ! j)) pos) \<and>
      grab_scan (length (items s)) pos (items s) = (items s)[i := grab (items s ! i) pos]"
    then obtain i where i: "i < length (items s)" "collidepoint (Item_rect (items s ! i)) pos"
      "\<forall>j. i < j \<and> j < length (items s) \<longrightarrow> \<not> collidepoint (Item_rect (items s ! j)) pos"
      "grab_scan (length (items s)) pos (items s) = (items s)[i := grab (items s ! i) pos]"
      by blast
    from i(4) True have
      "handle_mouse_down pos s = s\<lparr>items := (items s)[i := grab (items s ! i) pos]\<rparr>"
      by (simp add: handle_mouse_down_def)
    with i(1-3) show ?thesis by blast
  qed
qed

lemma n_dragging_mouse_down: "n_dragging (handle_mouse_down pos s) \<le> n_dragging s + 1"
proof -
  from mouse_down_cases [of pos s] show ?thesis
  proof
    assume "handle_mouse_down pos s = s"
    then show ?thesis by simp
  next
    assume "\<exists>i<length (items s). collidepoint (Item_rect (items s ! i)) pos \<and>
      (\<forall>j. i < j \<and> j < length (items s) \<longrightarrow> \<not> collidepoint (Item_rect (items s ! j)) pos) \<and>
      handle_mouse_down pos s = s\<lparr>items := (items s)[i := grab (items s ! i) pos]\<rparr>"
    then obtain i where
      "handle_mouse_down pos s = s\<lparr>items := (items s)[i := grab (items s ! i) pos]\<rparr>"
      by blast
    then show ?thesis
      using filter_update_le [of dragging "items s" i "grab (items s ! i) pos"]
      by (simp add: n_dragging_def)
  qed
qed

lemma n_dragging_mouse_up:
  assumes "state s = PLAYING"
  shows "n_dragging (handle_mouse_up pos s) = n_dragging s - 1"
proof (cases "first_dragging (items s)")
  case None
  then show ?thesis
    using assms by (simp add: handle_mouse_up_def n_dragging_def first_dragging_None)
next
  case (Some i)
  let ?it = "(items s ! i)\<lparr>dragging := False\<rparr>"
  have nd: "\<not> dragging ?it" by simp
  have up: "handle_mouse_up pos s = place_in_bins (bins s) ?it (s\<lparr>items := (items s)[i := ?it]\<rparr>)"
    using assms Some by (simp add: handle_mouse_up_def Let_def)
  have "filter dragging (items (handle_mouse_up pos s)) = filter dragging ((items s)[i := ?it])"
    unfolding up place_in_bins_find
    by (simp add: items_register_hit remove1_not_dragging [OF nd] split: option.split)
  then show ?thesis
    using undrag_first [OF Some nd] by (simp add: n_dragging_def)
qed

lemma dragging_drag_to: "dragging (drag_to pos it) = dragging it"
  by (simp add: drag_to_def)

lemma n_dragging_motion: "n_dragging (handle_mouse_motion pos s) = n_dragging s"
  by (simp add: handle_mouse_motion_def n_dragging_def filter_map o_def dragging_drag_to)

lemma dragging_Item_update: "dragging (Item_update it g) = dragging it"
  by (simp add: Item_update_def Let_def)

lemma spawn_tick_dragging:
  "spawn_tick r s = Inr s2 \<Longrightarrow> filter dragging (items s2) = filter dragging (items s)"
  by (auto simp: spawn_tick_def spawn_item_def Item_def Let_def split: if_splits option.splits)

lemma n_dragging_update:
  assumes "update dt r s = Inr s'"
  shows "n_dragging s' \<le> n_dragging s"
proof (cases "state s = PLAYING")
  case False
  with assms show ?thesis by (simp add: update_def)
next
  case True
  with assms obtain s2 where s2: "spawn_tick r s = Inr s2"
    by (auto simp: update_def split: sum.splits)
  from update_tick [OF True s2, of dt] assms
  have "s' = level_timer dt (tip_tick dt
      (update_items (length (items s2)) 0 (fst (LEVELS ! level s)) s2))"
    by simp
  then have its: "items s' = filter (\<lambda>it. \<not> fell it)
      (map (\<lambda>it. Item_update it (fst (LEVELS ! level s))) (items s2))"
    by (simp add: update_tick_scan)
  have "length (filter dragging (items s')) \<le>
      length (filter dragging (map (\<lambda>it. Item_update it (fst (LEVELS ! level s))) (items s2)))"
    unfolding its by (rule length_filter_filter_le)
  also have "\<dots> = length (filter dragging (items s2))"
    by (simp add: filter_map o_def dragging_Item_update)
  finally show ?thesis
    by (simp add: n_dragging_def spawn_tick_dragging [OF s2])
qed

text \<open>
  C9, as stated: in every state reached by input events and ticks at most one item is
  dragged. The session \<open>two_grabs\<close> ends with two dragged items.
\<close>

theorem two_dragged_counterexample:
  "map_sum id n_dragging (run two_grabs (Game_init Absent)) = Inr 2"
  by (simp add: two_grabs_def idle_def input_def rnd0_def rnd1_def numeral_eq_Suc
      Game_init_def reset_def load_hiscore_def file_value_def Let_def
      run_frame_def update_def spawn_tick_def LEVELS_def LIVES_START_def tip_tick_def
      level_timer_def spawn_item_def map_of_ITEMS_rnd category_color_def Item_def
      Item_update_def SCREEN_H_def C_EWASTE_def C_PLASTIC_def
      handle_mouse_down_def handle_mouse_up_def collidepoint_def Item_rect_def Rect_def
      py_int_def grab_def n_dragging_def)

lemma grabbed_can_eq:
  "grabbed_can = fresh\<lparr>items := [falling_can\<lparr>dragging := True, grabbed_dx := - 10,
      grabbed_dy := - 10\<rparr>]\<rparr>"
  by (simp add: grabbed_can_def handle_mouse_down_def fresh_eq falling_can_def Item_def
      Item_rect_def Rect_def py_int_def collidepoint_def grab_def)

lemma grabbed_can_tick:
  "update 0.016 rnd0 grabbed_can =
     Inr (grabbed_can\<lparr>frames_since_spawn := 1, level_time_left := 49.984\<rparr>)"
  unfolding grabbed_can_eq
  by (simp add: update_def spawn_tick_def fresh_eq LEVELS_def Item_update_def SCREEN_H_def
      tip_tick_def level_timer_def falling_can_def Item_def Let_def)

lemma dragged_after_release:
  assumes "state s = PLAYING" and "first_dragging (items s) = Some i"
  shows "filter dragging (items (handle_mouse_up pos s)) =
         filter dragging ((items s)[i := (items s ! i)\<lparr>dragging := False\<rparr>])"
proof -
  let ?it = "(items s ! i)\<lparr>dragging := False\<rparr>"
  have nd: "\<not> dragging ?it" by simp
  have up: "handle_mouse_up pos s = place_in_bins (bins s) ?it (s\<lparr>items := (items s)[i := ?it]\<rparr>)"
    using assms by (simp add: handle_mouse_up_def Let_def)
  show ?thesis
    unfolding up place_in_bins_find
    by (simp add: items_register_hit remove1_not_dragging [OF nd] split: option.split)
qed

text \<open>
  C9, amended. A grab changes at most one item, the last of the list whose rectangle
  holds the pointer, and sets its flag without looking whether another item is already
  dragged: it raises the number of dragged items by at most one. A release handled in
  the PLAYING state clears the flag of the first dragged item of the list and of no
  other, so it lowers the number by exactly one when there is a dragged item; a release
  in any other state changes nothing. The items dragged after a release in PLAYING are
  those of the list in which the first dragged item has been un-dragged. Pointer-moves
  keep the number and ticks never raise it.
\<close>

theorem dragging_count:
  "n_dragging (handle_mouse_down pos s) \<le> n_dragging s + 1 \<and>
   (handle_mouse_down pos s = s \<or>
    (\<exists>i<length (items s). collidepoint (Item_rect (items s ! i)) pos \<and>
       (\<forall>j. i < j \<and> j < length (items s) \<longrightarrow> \<not> collidepoint (Item_rect (items s ! j)) pos) \<and>
       handle_mouse_down pos s = s\<lparr>items := (items s)[i := grab (items s ! i) pos]\<rparr>)) \<and>
   (state s = PLAYING \<longrightarrow> n_dragging (handle_mouse_up pos s) = n_dragging s - 1) \<and>
   (state s \<noteq> PLAYING \<longrightarrow> handle_mouse_up pos s = s) \<and>
   n_dragging (handle_mouse_motion pos s) = n_dragging s \<and>
   (update dt r s = Inr s' \<longrightarrow> n_dragging s' \<le> n_dragging s) \<and>
   (state s = PLAYING \<longrightarrow> first_dragging (items s) = Some k \<longrightarrow>
      k < length (items s) \<and> dragging (items s ! k) \<and> (\<forall>j<k. \<not> dragging (items s ! j)) \<and>
      filter dragging (items (handle_mouse_up pos s)) =
        filter dragging ((items s)[k := (items s ! k)\<lparr>dragging := False\<rparr>]))"
proof -
  have idle_up: "state s \<noteq> PLAYING \<longrightarrow> handle_mouse_up pos s = s"
    by (simp add: handle_mouse_up_def)
  have first: "state s = PLAYING \<longrightarrow> first_dragging (items s) = Some k \<longrightarrow>
      k < length (items s) \<and> dragging (items s ! k) \<and> (\<forall>j<k. \<not> dragging (items s ! j)) \<and>
      filter dragging (items (handle_mouse_up pos s)) =
        filter dragging ((items s)[k := (items s ! k)\<lparr>dragging := False\<rparr>])"
    using first_dragging_Some [of "items s" k] dragged_after_release [of s k pos] by blast
  from n_dragging_mouse_down [of pos s] mouse_down_cases [of pos s]
    n_dragging_mouse_up [of s pos] idle_up n_dragging_motion [of pos s]
    n_dragging_update [of dt r s s'] first
  show ?thesis by blast
qed

theorem dragging_count_witness:
  "state grabbed_can = PLAYING \<and> n_dragging grabbed_can = 1 \<and>
   n_dragging (handle_mouse_up (410, 210) grabbed_can) = 0 \<and>
   state (Game_init Absent) \<noteq> PLAYING \<and>
   handle_mouse_up (410, 210) (Game_init Absent) = Game_init Absent \<and>
   update 0.016 rnd0 grabbed_can =
     Inr (grabbed_can\<lparr>frames_since_spawn := 1, level_time_left := 49.984\<rparr>) \<and>
   n_dragging (grabbed_can\<lparr>frames_since_spawn := 1, level_time_left := 49.984\<rparr>) \<le> 1 \<and>
   state two_held = PLAYING \<and> first_dragging (items two_held) = Some 1 \<and>
   \<not> dragging (items two_held ! 0) \<and> dragging (items two_held ! 1) \<and>
   n_dragging two_held = 2 \<and>
   filter dragging (items (handle_mouse_up (840, 500) two_held)) = [battery]"
proof -
  have p: "state grabbed_can = PLAYING" by (simp add: grabbed_can_eq fresh_eq)
  have n: "n_dragging grabbed_can = 1" by (simp add: grabbed_can_eq n_dragging_def)
  have m: "state (Game_init Absent) \<noteq> PLAYING" by (simp add: Game_init_def reset_fields)
  note u = grabbed_can_tick
  from dragging_count [of "(410, 210)" grabbed_can "0.016" rnd0
      "grabbed_can\<lparr>frames_since_spawn := 1, level_time_left := 49.984\<rparr>"] p u
  have a: "n_dragging (handle_mouse_up (410, 210) grabbed_can) = n_dragging grabbed_can - 1"
    and b: "n_dragging (grabbed_can\<lparr>frames_since_spawn := 1, level_time_left := 49.984\<rparr>)
              \<le> n_dragging grabbed_can"
    by blast+
  from dragging_count [of "(410, 210)" "Game_init Absent"] m
  have c: "handle_mouse_up (410, 210) (Game_init Absent) = Game_init Absent"
    by blast
  from a b have d: "n_dragging (handle_mouse_up (410, 210) grabbed_can) = 0"
    "n_dragging (grabbed_can\<lparr>frames_since_spawn := 1, level_time_left := 49.984\<rparr>) \<le> 1"
    by (simp_all add: n)
  have t: "state two_held = PLAYING" "items two_held = [falling_can, battery_above, battery]"
    by (simp_all add: two_held_def fresh_eq)
  have f: "first_dragging (items two_held) = Some 1"
    unfolding t by (simp add: falling_can_def battery_above_def Item_def)
  have g: "n_dragging two_held = 2"
    by (simp add: n_dragging_def t falling_can_def battery_above_def battery_def Item_def)
  from dragging_count [where s = two_held and pos = "(840, 500)" and k = 1] t(1) f
  have e: "dragging (items two_held ! 1) \<and> (\<forall>j<1. \<not> dragging (items two_held ! j)) \<and>
      filter dragging (items (handle_mouse_up (840, 500) two_held)) =
        filter dragging ((items two_held)[1 := (items two_held ! 1)\<lparr>dragging := False\<rparr>])"
    by blast
  then have e1: "dragging (items two_held ! 1)" "\<not> dragging (items two_held ! 0)"
    "filter dragging (items (handle_mouse_up (840, 500) two_held)) = [battery]"
    by (simp_all add: t falling_can_def battery_def Item_def)
  from p n m c u d t(1) f g e1 show ?thesis by blast
qed

subsection \<open>The release, in every state\<close>

lemma release_playing:
  assumes "state s = PLAYING" and "first_dragging (items s) = Some i"
  shows "i < length (items s) \<and> dragging (items s ! i) \<and> (\<forall>j<i. \<not> dragging (items s ! j)) \<and>
    (case find (\<lambda>b. colliderect (bin_rect b) (Item_rect ((items s ! i)\<lparr>dragging := False\<rparr>))) (bins s) of
       Some b \<Rightarrow>
         handle_mouse_up pos s =
           register_hit (category (items s ! i) = label b)
             (drop_tip (category (items s ! i) = label b) ((items s ! i)\<lparr>dragging := False\<rparr>))
             (s\<lparr>items := remove1 ((items s ! i)\<lparr>dragging := False\<rparr>)
                            ((items s)[i := (items s ! i)\<lparr>dragging := False\<rparr>])\<rparr>) \<and>
         mset (items (handle_mouse_up pos s)) = mset (items s) - {#items s ! i#}
     | None \<Rightarrow>
         handle_mouse_up pos s = s\<lparr>items := (items s)[i := (items s ! i)\<lparr>dragging := False\<rparr>]\<rparr> \<and>
         score (handle_mouse_up pos s) = score s \<and> lives (handle_mouse_up pos s) = lives s \<and>
         streak (handle_mouse_up pos s) = streak s \<and> state (handle_mouse_up pos s) = PLAYING)"
proof -
  let ?it = "(items s ! i)\<lparr>dragging := False\<rparr>"
  let ?s1 = "s\<lparr>items := (items s)[i := ?it]\<rparr>"
  from first_dragging_Some [OF assms(2)]
  have fd: "i < length (items s) \<and> dragging (items s ! i) \<and> (\<forall>j<i. \<not> dragging (items s ! j))" .
  have up: "handle_mouse_up pos s = place_in_bins (bins s) ?it ?s1"
    using assms by (simp add: handle_mouse_up_def Let_def)
  show ?thesis
  proof (cases "find (\<lambda>b. colliderect (bin_rect b) (Item_rect ?it)) (bins s)")
    case None
    then have "handle_mouse_up pos s = ?s1"
      by (simp add: up place_in_bins_find)
    with None fd assms(1) show ?thesis by simp
  next
    case (Some b)
    then have eq: "handle_mouse_up pos s =
        register_hit (category ?it = label b) (drop_tip (category ?it = label b) ?it)
          (?s1\<lparr>items := remove1 ?it (items ?s1)\<rparr>)"
      by (simp add: up place_in_bins_find)
    have "mset (items (handle_mouse_up pos s)) = mset (items s) - {#items s ! i#}"
      using fd by (simp add: eq items_register_hit mset_remove1_update)
    with eq Some fd show ?thesis by simp
  qed
qed

lemma paused_drag_eq: "paused_drag = fresh\<lparr>items := [battery], state := PAUSE\<rparr>"
  by (simp add: paused_drag_def fresh_eq)

text \<open>
  C4, as stated: on a release while an item is dragged, an item that overlaps a bin is
  removed and scored, and one that overlaps none is no longer dragged. The Battery is
  held over the E-Waste bin, the game is paused with P and the button is released: the
  release changes nothing, the Battery stays in the list, dragged, and the score stays 0.
\<close>

theorem paused_release_counterexample:
  "state paused_drag = PAUSE \<and> items paused_drag = [battery] \<and> dragging battery \<and>
   bins paused_drag ! 4 = Bin ''E-Waste'' C_EWASTE (Rect 804 520 176 110) \<and>
   colliderect (Rect 804 520 176 110) (Item_rect battery) \<and>
   handle_event (MOUSEBUTTONUP 1 (850, 560)) paused_drag = paused_drag \<and>
   score paused_drag = 0"
proof -
  have c: "colliderect (Rect 804 520 176 110) (Item_rect battery)"
    by (simp add: colliderect_def Rect_def Item_rect_def battery_def Item_def py_int_def)
  have d: "dragging battery" by (simp add: battery_def)
  have b: "bins paused_drag ! 4 = Bin ''E-Waste'' C_EWASTE (Rect 804 520 176 110)"
    by (simp add: paused_drag_eq fresh_eq build_bins_eq)
  have u: "handle_event (MOUSEBUTTONUP 1 (850, 560)) paused_drag = paused_drag"
    by (simp add: paused_drag_eq handle_mouse_up_def)
  from c d b u show ?thesis
    by (simp add: paused_drag_eq fresh_eq)
qed

text \<open>
  C4, amended. A release handled in a state other than PLAYING changes nothing, and so
  does one in the PLAYING state when no item is dragged. In the PLAYING state with
  \<open>i\<close> the first dragged item of the list, the release tests that item's rectangle
  against the bins in their list order and the first bin that collides with it decides.
  If there is one, the outcome is \<open>register_hit\<close> with \<open>correct\<close> true exactly when
  the item's category equals the bin's label, and the item is gone from the list. If
  there is none, the item stays where it is in the list, no longer dragged and otherwise
  the same, and nothing else of the game changes.
\<close>

theorem release_resolution:
  "(state s \<noteq> PLAYING \<longrightarrow> handle_mouse_up pos s = s) \<and>
   (state s = PLAYING \<longrightarrow> first_dragging (items s) = None \<longrightarrow> handle_mouse_up pos s = s) \<and>
   (state s = PLAYING \<longrightarrow> first_dragging (items s) = Some i \<longrightarrow>
    i < length (items s) \<and> dragging (items s ! i) \<and> (\<forall>j<i. \<not> dragging (items s ! j)) \<and>
    (case find (\<lambda>b. colliderect (bin_rect b) (Item_rect ((items s ! i)\<lparr>dragging := False\<rparr>))) (bins s) of
       Some b \<Rightarrow>
         handle_mouse_up pos s =
           register_hit (category (items s ! i) = label b)
             (drop_tip (category (items s ! i) = label b) ((items s ! i)\<lparr>dragging := False\<rparr>))
             (s\<lparr>items := remove1 ((items s ! i)\<lparr>dragging := False\<rparr>)
                            ((items s)[i := (items s ! i)\<lparr>dragging := False\<rparr>])\<rparr>) \<and>
         mset (items (handle_mouse_up pos s)) = mset (items s) - {#items s ! i#}
     | None \<Rightarrow>
         handle_mouse_up pos s = s\<lparr>items := (items s)[i := (items s ! i)\<lparr>dragging := False\<rparr>]\<rparr> \<and>
         score (handle_mouse_up pos s) = score s \<and> lives (handle_mouse_up pos s) = lives s \<and>
         streak (handle_mouse_up pos s) = streak s \<and> state (handle_mouse_up pos s) = PLAYING))"
proof (intro conjI impI)
  assume "state s \<noteq> PLAYING"
  then show "handle_mouse_up pos s = s" by (simp add: handle_mouse_up_def)
next
  assume "state s = PLAYING" and "first_dragging (items s) = None"
  then show "handle_mouse_up pos s = s" by (simp add: handle_mouse_up_def)
next
  assume a: "state s = PLAYING" "first_dragging (items s) = Some i"
  from release_playing [OF a, of pos]
  show "i < length (items s)" "dragging (items s ! i)" "\<forall>j<i. \<not> dragging (items s ! j)"
    "case find (\<lambda>b. colliderect (bin_rect b) (Item_rect ((items s ! i)\<lparr>dragging := False\<rparr>))) (bins s) of
       Some b \<Rightarrow>
         handle_mouse_up pos s =
           register_hit (category (items s ! i) = label b)
             (drop_tip (category (items s ! i) = label b) ((items s ! i)\<lparr>dragging := False\<rparr>))
             (s\<lparr>items := remove1 ((items s ! i)\<lparr>dragging := False\<rparr>)
                            ((items s)[i := (items s ! i)\<lparr>dragging := False\<rparr>])\<rparr>) \<and>
         mset (items (handle_mouse_up pos s)) = mset (items s) - {#items s ! i#}
     | None \<Rightarrow>
         handle_mouse_up pos s = s\<lparr>items := (items s)[i := (items s ! i)\<lparr>dragging := False\<rparr>]\<rparr> \<and>
         score (handle_mouse_up pos s) = score s \<and> lives (handle_mouse_up pos s) = lives s \<and>
         streak (handle_mouse_up pos s) = streak s \<and> state (handle_mouse_up pos s) = PLAYING"
    by blast+
qed

lemma find_bin_battery:
  "find (\<lambda>b. colliderect (bin_rect b) (Item_rect (battery\<lparr>dragging := False\<rparr>))) build_bins =
     Some (Bin ''E-Waste'' C_EWASTE (Rect 804 520 176 110))"
  "find (\<lambda>b. colliderect (bin_rect b) (Item_rect (battery_between\<lparr>dragging := False\<rparr>))) build_bins =
     Some (Bin ''Organic'' C_ORGANIC (Rect 608 520 176 110))"
  "find (\<lambda>b. colliderect (bin_rect b) (Item_rect (battery_at_corner\<lparr>dragging := False\<rparr>))) build_bins =
     Some (Bin ''E-Waste'' C_EWASTE (Rect 804 520 176 110))"
  "find (\<lambda>b. colliderect (bin_rect b) (Item_rect (battery_above\<lparr>dragging := False\<rparr>))) build_bins =
     None"
  by (simp_all add: build_bins_eq Bin_def Rect_def colliderect_def Item_rect_def battery_def
      battery_between_def battery_at_corner_def battery_above_def Item_def py_int_def)

theorem release_resolution_witness:
  "state paused_drag \<noteq> PLAYING \<and> handle_mouse_up (850, 560) paused_drag = paused_drag \<and>
   state fresh = PLAYING \<and> first_dragging (items fresh) = None \<and>
   handle_mouse_up (850, 560) fresh = fresh \<and>
   first_dragging [battery] = Some 0 \<and>
   handle_mouse_up (850, 560) (fresh\<lparr>items := [battery]\<rparr>) =
     register_hit True (CORRECT_MARK @ '' Battery: Never bin batteries!'') fresh \<and>
   handle_mouse_up (860, 500) (fresh\<lparr>items := [battery_at_corner]\<rparr>) =
     register_hit True (CORRECT_MARK @ '' Battery: Never bin batteries!'') fresh \<and>
   handle_mouse_up (760, 560) (fresh\<lparr>items := [battery_between]\<rparr>) =
     register_hit False (WRONG_MARK @ '' Battery goes in E-Waste bin.'') fresh \<and>
   handle_mouse_up (860, 500) (fresh\<lparr>items := [battery_above]\<rparr>) =
     fresh\<lparr>items := [battery_above\<lparr>dragging := False\<rparr>]\<rparr>"
proof -
  have st: "state paused_drag \<noteq> PLAYING" "state fresh = PLAYING" "bins fresh = build_bins"
    "items fresh = []" "fresh\<lparr>items := []\<rparr> = fresh"
    by (simp_all add: paused_drag_eq fresh_eq)
  have it: "dragging battery" "dragging battery_at_corner" "dragging battery_between"
    "dragging battery_above"
    "category battery = ''E-Waste''" "category battery_at_corner = ''E-Waste''"
    "category battery_between = ''E-Waste''"
    "name battery = ''Battery''" "name battery_at_corner = ''Battery''"
    "name battery_between = ''Battery''"
    "tip battery = ''Never bin batteries!''" "tip battery_at_corner = ''Never bin batteries!''"
    by (simp_all add: battery_def battery_at_corner_def battery_between_def battery_above_def
        Item_def)
  from release_resolution [of paused_drag "(850, 560)"] st(1)
  have a: "handle_mouse_up (850, 560) paused_drag = paused_drag" by blast
  from release_resolution [of fresh "(850, 560)"]
  have b: "handle_mouse_up (850, 560) fresh = fresh" by (simp add: st)
  from release_resolution [of "fresh\<lparr>items := [battery]\<rparr>" "(850, 560)" 0]
  have c: "handle_mouse_up (850, 560) (fresh\<lparr>items := [battery]\<rparr>) =
      register_hit True (CORRECT_MARK @ '' Battery: Never bin batteries!'') fresh"
    by (simp add: st it find_bin_battery Bin_def drop_tip_def)
  from release_resolution [of "fresh\<lparr>items := [battery_at_corner]\<rparr>" "(860, 500)" 0]
  have d: "handle_mouse_up (860, 500) (fresh\<lparr>items := [battery_at_corner]\<rparr>) =
      register_hit True (CORRECT_MARK @ '' Battery: Never bin batteries!'') fresh"
    by (simp add: st it find_bin_battery Bin_def drop_tip_def)
  from release_resolution [of "fresh\<lparr>items := [battery_between]\<rparr>" "(760, 560)" 0]
  have e: "handle_mouse_up (760, 560) (fresh\<lparr>items := [battery_between]\<rparr>) =
      register_hit False (WRONG_MARK @ '' Battery goes in E-Waste bin.'') fresh"
    by (simp add: st it find_bin_battery Bin_def drop_tip_def)
  from release_resolution [of "fresh\<lparr>items := [battery_above]\<rparr>" "(860, 500)" 0]
  have f: "handle_mouse_up (860, 500) (fresh\<lparr>items := [battery_above]\<rparr>) =
      fresh\<lparr>items := [battery_above\<lparr>dragging := False\<rparr>]\<rparr>"
    by (simp add: st it find_bin_battery)
  have g: "first_dragging (items fresh) = None" "first_dragging [battery] = Some 0"
    by (simp_all add: st it)
  from st(1,2) a b c d e f g show ?thesis by blast
qed

subsection \<open>The high score\<close>

text \<open>
  As long as no write has failed, the in-memory high score is the value of the file.
  Every function that \<open>run\<close> calls keeps this.
\<close>

lemma hs_inv_game_over:
  "(writes_ok s \<longrightarrow> hs_sync s) \<Longrightarrow> writes_ok (game_over s) \<longrightarrow> hs_sync (game_over s)"
  by (cases "disk s")
    (auto simp: writes_ok_def hs_sync_def game_over_def save_hiscore_def file_value_def Let_def)

lemma hs_inv_register_miss:
  "(writes_ok s \<longrightarrow> hs_sync s) \<Longrightarrow> writes_ok (register_miss s) \<longrightarrow> hs_sync (register_miss s)"
proof -
  assume a: "writes_ok s \<longrightarrow> hs_sync s"
  then have b: "writes_ok (s\<lparr>streak := 0, lives := lives s - 1\<rparr>) \<longrightarrow>
      hs_sync (s\<lparr>streak := 0, lives := lives s - 1\<rparr>)"
    by (simp add: hs_sync_def writes_ok_def)
  show ?thesis
    using b hs_inv_game_over [OF b]
    by (simp add: register_miss_def Let_def)
qed

lemma hs_inv_items:
  "(writes_ok (s\<lparr>items := xs\<rparr>) \<longrightarrow> hs_sync (s\<lparr>items := xs\<rparr>)) = (writes_ok s \<longrightarrow> hs_sync s)"
  by (simp add: hs_sync_def writes_ok_def)

lemma hs_inv_register_hit:
  "(writes_ok s \<longrightarrow> hs_sync s) \<Longrightarrow>
   writes_ok (register_hit c tp s) \<longrightarrow> hs_sync (register_hit c tp s)"
  using hs_inv_register_miss [of s]
  by (simp add: register_hit_def Let_def hs_sync_def writes_ok_def)

lemma hs_inv_place_in_bins:
  "(writes_ok s \<longrightarrow> hs_sync s) \<Longrightarrow>
   writes_ok (place_in_bins bs it s) \<longrightarrow> hs_sync (place_in_bins bs it s)"
proof (induction bs)
  case Nil
  then show ?case by (simp add: hs_sync_def writes_ok_def)
next
  case (Cons b bs)
  from Cons.prems have "writes_ok (s\<lparr>items := remove1 it (items s)\<rparr>) \<longrightarrow>
      hs_sync (s\<lparr>items := remove1 it (items s)\<rparr>)"
    by (simp add: hs_sync_def writes_ok_def)
  from hs_inv_register_hit [OF this] Cons show ?case
    by (simp add: Let_def)
qed

lemma hs_inv_update_items:
  "(writes_ok s \<longrightarrow> hs_sync s) \<Longrightarrow>
   writes_ok (update_items n i g s) \<longrightarrow> hs_sync (update_items n i g s)"
proof (induction n arbitrary: i s)
  case 0
  then show ?case by simp
next
  case (Suc n)
  have k: "(writes_ok x \<longrightarrow> hs_sync x) \<Longrightarrow>
      writes_ok (register_miss (x\<lparr>items := ys\<rparr>)) \<longrightarrow> hs_sync (register_miss (x\<lparr>items := ys\<rparr>))"
    for x ys
    by (rule hs_inv_register_miss) (simp add: hs_sync_def writes_ok_def)
  have j: "(writes_ok x \<longrightarrow> hs_sync x) \<Longrightarrow>
      writes_ok (x\<lparr>items := ys\<rparr>) \<longrightarrow> hs_sync (x\<lparr>items := ys\<rparr>)" for x ys
    by (simp add: hs_sync_def writes_ok_def)
  from Suc.prems show ?case
    by (auto simp: Let_def intro!: Suc.IH [rule_format] k [rule_format] j [rule_format])
qed

lemma hs_sync_reset: "hs_sync (reset full s)"
  by (simp add: hs_sync_def reset_fields)

lemma hs_inv_handle_event:
  "(writes_ok s \<longrightarrow> hs_sync s) \<Longrightarrow>
   writes_ok (handle_event e s) \<longrightarrow> hs_sync (handle_event e s)"
proof (cases e)
  case (KEYDOWN k)
  assume "writes_ok s \<longrightarrow> hs_sync s"
  then show ?thesis
    using hs_sync_reset [of False s] by (simp add: KEYDOWN hs_sync_def writes_ok_def)
next
  case (MOUSEBUTTONUP b pos)
  assume a: "writes_ok s \<longrightarrow> hs_sync s"
  have "writes_ok (place_in_bins bs it (s\<lparr>items := ys\<rparr>)) \<longrightarrow>
      hs_sync (place_in_bins bs it (s\<lparr>items := ys\<rparr>))" for bs it ys
    using a by (intro hs_inv_place_in_bins) (simp add: hs_sync_def writes_ok_def)
  with a show ?thesis
    by (simp add: MOUSEBUTTONUP handle_mouse_up_def Let_def split: option.split)
qed (simp_all add: hs_sync_def writes_ok_def handle_mouse_down_def handle_mouse_motion_def)

lemma hs_inv_events:
  "(writes_ok s \<longrightarrow> hs_sync s) \<Longrightarrow>
   writes_ok (foldl (\<lambda>g e. handle_event e g) s es) \<longrightarrow>
   hs_sync (foldl (\<lambda>g e. handle_event e g) s es)"
proof (induction es arbitrary: s)
  case Nil
  then show ?case by simp
next
  case (Cons e es)
  from Cons.IH [OF hs_inv_handle_event [OF Cons.prems]] show ?case by simp
qed

lemma hs_inv_update:
  "(writes_ok s \<longrightarrow> hs_sync s) \<Longrightarrow> update dt r s = Inr s' \<Longrightarrow> writes_ok s' \<longrightarrow> hs_sync s'"
proof -
  assume a: "writes_ok s \<longrightarrow> hs_sync s" and u: "update dt r s = Inr s'"
  show ?thesis
  proof (cases "state s = PLAYING")
    case False
    with a u show ?thesis by (simp add: update_def)
  next
    case True
    with u obtain s2 where s2: "spawn_tick r s = Inr s2"
      and s': "s' = level_timer dt (tip_tick dt
                 (update_items (length (items s2)) 0 (fst (LEVELS ! level s)) s2))"
      by (auto simp: update_def Let_def split: sum.splits)
    from s2 a have "writes_ok s2 \<longrightarrow> hs_sync s2"
      by (auto simp: spawn_tick_def spawn_item_def Let_def hs_sync_def writes_ok_def
          split: if_splits option.splits)
    then have m: "writes_ok (update_items (length (items s2)) 0 (fst (LEVELS ! level s)) s2) \<longrightarrow>
        hs_sync (update_items (length (items s2)) 0 (fst (LEVELS ! level s)) s2)"
      by (rule hs_inv_update_items)
    have t: "(writes_ok x \<longrightarrow> hs_sync x) \<Longrightarrow>
        writes_ok (tip_tick dt x) \<longrightarrow> hs_sync (tip_tick dt x)" for x
      by (simp add: hs_sync_def writes_ok_def tip_tick_round)
    have l: "(writes_ok x \<longrightarrow> hs_sync x) \<Longrightarrow>
        writes_ok (level_timer dt x) \<longrightarrow> hs_sync (level_timer dt x)" for x
    proof -
      assume "writes_ok x \<longrightarrow> hs_sync x"
      then have "writes_ok (x\<lparr>level_time_left := level_time_left x - dt\<rparr>) \<longrightarrow>
          hs_sync (x\<lparr>level_time_left := level_time_left x - dt\<rparr>)"
        by (simp add: hs_sync_def writes_ok_def)
      from this hs_inv_game_over [OF this] show ?thesis
        by (simp add: level_timer_def Let_def hs_sync_def writes_ok_def)
    qed
    from l [OF t [OF m]] show ?thesis unfolding s' .
  qed
qed

lemma hs_inv_run_frame:
  "(writes_ok s \<longrightarrow> hs_sync s) \<Longrightarrow> run_frame f s = Inr s' \<Longrightarrow> writes_ok s' \<longrightarrow> hs_sync s'"
proof -
  assume a: "writes_ok s \<longrightarrow> hs_sync s" and r: "run_frame f s = Inr s'"
  from a have "writes_ok (s\<lparr>disk := frame_disk f\<rparr>) \<longrightarrow> hs_sync (s\<lparr>disk := frame_disk f\<rparr>)"
    by (simp add: hs_sync_def writes_ok_def)
  from hs_inv_events [OF this, of "frame_events f"]
  have e: "writes_ok (foldl (\<lambda>g e. handle_event e g) (s\<lparr>disk := frame_disk f\<rparr>) (frame_events f)) \<longrightarrow>
      hs_sync (foldl (\<lambda>g e. handle_event e g) (s\<lparr>disk := frame_disk f\<rparr>) (frame_events f))" .
  show ?thesis
  proof (cases "state (foldl (\<lambda>g e. handle_event e g) (s\<lparr>disk := frame_disk f\<rparr>)
      (frame_events f)) = PLAYING")
    case True
    with r have "update (frame_dt f) (frame_rnd f)
        (foldl (\<lambda>g e. handle_event e g) (s\<lparr>disk := frame_disk f\<rparr>) (frame_events f)) = Inr s'"
      by (simp add: run_frame_def Let_def)
    from hs_inv_update [OF e this] show ?thesis .
  next
    case False
    with r have "s' = foldl (\<lambda>g e. handle_event e g) (s\<lparr>disk := frame_disk f\<rparr>) (frame_events f)"
      by (simp add: run_frame_def Let_def)
    with e show ?thesis by simp
  qed
qed

lemma hs_inv_run:
  "(writes_ok s \<longrightarrow> hs_sync s) \<Longrightarrow> run fs s = Inr s' \<Longrightarrow> writes_ok s' \<longrightarrow> hs_sync s'"
proof (induction fs arbitrary: s)
  case Nil
  then show ?case by simp
next
  case (Cons f fs)
  show ?case
  proof (cases "running s")
    case False
    with Cons.prems show ?thesis by simp
  next
    case True
    with Cons.prems obtain s1 where s1: "run_frame f s = Inr s1" "run fs s1 = Inr s'"
      by (auto split: sum.splits)
    from hs_inv_run_frame [OF Cons.prems(1) s1(1)] have "writes_ok s1 \<longrightarrow> hs_sync s1" .
    from Cons.IH [OF this s1(2)] show ?thesis .
  qed
qed

lemma run_append:
  "run (fs @ gs) s = (case run fs s of Inl e \<Rightarrow> Inl e | Inr s1 \<Rightarrow> run gs s1)"
proof (induction fs arbitrary: s)
  case Nil
  then show ?case by simp
next
  case (Cons f fs)
  show ?case
  proof (cases "running s")
    case True
    with Cons show ?thesis by (simp split: sum.split)
  next
    case False
    then show ?thesis by (cases gs) simp_all
  qed
qed

lemma carry_to_bin_played: "run carry_to_bin (Game_init Absent) = Inr played"
  by (simp add: carry_to_bin_def played_def fresh_eq build_bins_eq idle_def input_def rnd0_def
      numeral_eq_Suc Game_init_def reset_def load_hiscore_def file_value_def Let_def
      run_frame_def update_def spawn_tick_def LEVELS_def LIVES_START_def tip_tick_def
      level_timer_def spawn_item_def map_of_ITEMS_rnd category_color_def Item_def
      Item_update_def SCREEN_H_def C_EWASTE_def
      handle_mouse_down_def handle_mouse_up_def handle_mouse_motion_def drag_to_def
      collidepoint_def colliderect_def Bin_def Item_rect_def Rect_def
      py_int_def grab_def drop_tip_def register_hit_def)

lemma after_play:
  "run (high_score_session d) (Game_init Absent) =
     run [time_out d, input (KEYDOWN K_r)] played"
  by (simp add: high_score_session_def run_append carry_to_bin_played)

text \<open>
  The session \<open>high_score_session\<close>: when the write succeeds the restarted game has the
  new high score, 55, read back from the file.
\<close>

lemma session_writable:
  "map_sum id hs_view (run (high_score_session Writable) (Game_init Absent)) =
     Inr (55, Stored 55, [Read, Write 55, Read])"
  unfolding after_play
  by (simp add: played_def fresh_eq build_bins_eq time_out_def input_def rnd0_def hs_view_def
      run_frame_def update_def spawn_tick_def LEVELS_def LIVES_START_def tip_tick_def
      level_timer_def game_over_def save_hiscore_def reset_def load_hiscore_def
      file_value_def Let_def)

text \<open>
  When the file cannot be opened for writing, the game shows 55 as the high score on
  the GAME OVER screen while the file is still absent, and the restart reads 0.
\<close>

lemma session_open_fails:
  "map_sum id hs_view (run (carry_to_bin @ [time_out OpenFails]) (Game_init Absent)) =
     Inr (55, Absent, [Read, WriteFailed 55]) \<and>
   map_sum id hs_view (run (high_score_session OpenFails) (Game_init Absent)) =
     Inr (0, Absent, [Read, WriteFailed 55, Read])"
  unfolding after_play
  by (simp add: run_append carry_to_bin_played
      played_def fresh_eq build_bins_eq time_out_def input_def rnd0_def hs_view_def
      run_frame_def update_def spawn_tick_def LEVELS_def LIVES_START_def tip_tick_def
      level_timer_def game_over_def save_hiscore_def reset_def load_hiscore_def
      file_value_def Let_def)

text \<open>
  When the write fails after the file was opened, the file is left truncated, and the
  restart reads 0.
\<close>

lemma session_dump_fails:
  "map_sum id hs_view (run (high_score_session DumpFails) (Game_init Absent)) =
     Inr (0, Corrupt, [Read, WriteFailed 55, Read])"
  unfolding after_play
  by (simp add: played_def fresh_eq build_bins_eq time_out_def input_def rnd0_def hs_view_def
      run_frame_def update_def spawn_tick_def LEVELS_def LIVES_START_def tip_tick_def
      level_timer_def game_over_def save_hiscore_def reset_def load_hiscore_def
      file_value_def Let_def)

text \<open>
  C8, as stated: the store is read once, at session start. In the session
  \<open>restart_session\<close> it is read twice, at start and again by the restart.
\<close>

theorem read_once_counterexample:
  "map_sum id io_trace (run restart_session (Game_init Absent)) = Inr [Read, Read]"
  by (simp add: restart_session_def Game_init_def run_frame_def update_def spawn_tick_def
      reset_def load_hiscore_def file_value_def LEVELS_def LIVES_START_def tip_tick_def
      level_timer_def game_over_def Let_def)

text \<open>
  C8, amended. Exactly when the score is greater than the in-memory high score,
  \<open>game_over\<close> makes it the in-memory high score and attempts one write of it to the
  file. If the write succeeds the file holds the score. A failed write is swallowed:
  the file is left as it was when it could not be opened, and unreadable when the
  write broke off after opening it. When the score is not greater, neither the file nor
  the in-memory value changes and no write is attempted. In every state that \<open>run\<close>
  reaches from the start of a session, if no write has failed so far, the in-memory
  high score is the value the file holds. The file is read at the start of the session
  and again by every reset, and an absent or unreadable file reads as 0.
\<close>

theorem high_score_store:
  "(score s > hiscore s \<longrightarrow>
      hiscore (game_over s) = score s \<and>
      (disk s = Writable \<longrightarrow>
         hs_file (game_over s) = Stored (score s) \<and>
         io_trace (game_over s) = io_trace s @ [Write (score s)]) \<and>
      (disk s = OpenFails \<longrightarrow>
         hs_file (game_over s) = hs_file s \<and>
         io_trace (game_over s) = io_trace s @ [WriteFailed (score s)]) \<and>
      (disk s = DumpFails \<longrightarrow>
         hs_file (game_over s) = Corrupt \<and>
         io_trace (game_over s) = io_trace s @ [WriteFailed (score s)])) \<and>
   (score s \<le> hiscore s \<longrightarrow>
      hiscore (game_over s) = hiscore s \<and> hs_file (game_over s) = hs_file s \<and>
      io_trace (game_over s) = io_trace s) \<and>
   (run fs (Game_init f) = Inr s' \<longrightarrow> writes_ok s' \<longrightarrow>
      hiscore s' = file_value (hs_file s')) \<and>
   hiscore (Game_init f) = file_value f \<and> io_trace (Game_init f) = [Read] \<and>
   hiscore (reset full s) = file_value (hs_file s) \<and>
   io_trace (reset full s) = io_trace s @ [Read] \<and>
   file_value Absent = 0 \<and> file_value Corrupt = 0 \<and> file_value (Stored v) = v"
proof -
  have go: "score s > hiscore s \<longrightarrow>
      hiscore (game_over s) = score s \<and>
      (disk s = Writable \<longrightarrow>
         hs_file (game_over s) = Stored (score s) \<and>
         io_trace (game_over s) = io_trace s @ [Write (score s)]) \<and>
      (disk s = OpenFails \<longrightarrow>
         hs_file (game_over s) = hs_file s \<and>
         io_trace (game_over s) = io_trace s @ [WriteFailed (score s)]) \<and>
      (disk s = DumpFails \<longrightarrow>
         hs_file (game_over s) = Corrupt \<and>
         io_trace (game_over s) = io_trace s @ [WriteFailed (score s)])"
    by (cases "disk s") (simp_all add: game_over_def save_hiscore_def Let_def)
  have stay: "score s \<le> hiscore s \<longrightarrow>
      hiscore (game_over s) = hiscore s \<and> hs_file (game_over s) = hs_file s \<and>
      io_trace (game_over s) = io_trace s"
    by (simp add: game_over_def Let_def)
  have init: "hiscore (Game_init f) = file_value f" "io_trace (Game_init f) = [Read]"
    "hs_file (Game_init f) = f"
    by (simp_all add: Game_init_def reset_fields)
  then have "writes_ok (Game_init f) \<longrightarrow> hs_sync (Game_init f)" by (simp add: hs_sync_def)
  then have inv: "run fs (Game_init f) = Inr s' \<longrightarrow> writes_ok s' \<longrightarrow>
      hiscore s' = file_value (hs_file s')"
    using hs_inv_run [of "Game_init f" fs s'] by (simp add: hs_sync_def)
  have fv: "file_value Absent = 0 \<and> file_value Corrupt = 0 \<and> file_value (Stored v) = v"
    by (simp add: file_value_def)
  have rs: "hiscore (reset full s) = file_value (hs_file s) \<and>
      io_trace (reset full s) = io_trace s @ [Read]"
    by (simp add: reset_fields)
  from go stay init(1,2) inv fv rs show ?thesis by blast
qed

theorem high_score_store_witness:
  "score played > hiscore played \<and> disk played = Writable \<and>
   hiscore (game_over played) = 55 \<and> hs_file (game_over played) = Stored 55 \<and>
   io_trace (game_over played) = [Read, Write 55] \<and>
   score (played\<lparr>disk := OpenFails\<rparr>) > hiscore (played\<lparr>disk := OpenFails\<rparr>) \<and>
   disk (played\<lparr>disk := OpenFails\<rparr>) = OpenFails \<and>
   hiscore (game_over (played\<lparr>disk := OpenFails\<rparr>)) = 55 \<and>
   hs_file (game_over (played\<lparr>disk := OpenFails\<rparr>)) = Absent \<and>
   io_trace (game_over (played\<lparr>disk := OpenFails\<rparr>)) = [Read, WriteFailed 55] \<and>
   score (played\<lparr>disk := DumpFails\<rparr>) > hiscore (played\<lparr>disk := DumpFails\<rparr>) \<and>
   disk (played\<lparr>disk := DumpFails\<rparr>) = DumpFails \<and>
   hiscore (game_over (played\<lparr>disk := DumpFails\<rparr>)) = 55 \<and>
   hs_file (game_over (played\<lparr>disk := DumpFails\<rparr>)) = Corrupt \<and>
   io_trace (game_over (played\<lparr>disk := DumpFails\<rparr>)) = [Read, WriteFailed 55] \<and>
   score (played\<lparr>hiscore := 300\<rparr>) \<le> hiscore (played\<lparr>hiscore := 300\<rparr>) \<and>
   hiscore (game_over (played\<lparr>hiscore := 300\<rparr>)) = 300 \<and>
   hs_file (game_over (played\<lparr>hiscore := 300\<rparr>)) = Absent \<and>
   io_trace (game_over (played\<lparr>hiscore := 300\<rparr>)) = [Read] \<and>
   (\<exists>s'. run (high_score_session Writable) (Game_init Absent) = Inr s' \<and> writes_ok s' \<and>
      io_trace s' = [Read, Write 55, Read] \<and> hs_file s' = Stored 55 \<and>
      hiscore s' = file_value (hs_file s'))"
proof -
  have a: "score played = 55" "hiscore played = 0" "disk played = Writable"
    "io_trace played = [Read]" "hs_file played = Absent"
    by (simp_all add: played_def fresh_eq)
  have b: "score (played\<lparr>disk := d\<rparr>) = 55" "hiscore (played\<lparr>disk := d\<rparr>) = 0"
    "disk (played\<lparr>disk := d\<rparr>) = d" "io_trace (played\<lparr>disk := d\<rparr>) = [Read]"
    "hs_file (played\<lparr>disk := d\<rparr>) = Absent" for d
    by (simp_all add: a)
  have c: "score (played\<lparr>hiscore := 300\<rparr>) = 55" "hiscore (played\<lparr>hiscore := 300\<rparr>) = 300"
    "io_trace (played\<lparr>hiscore := 300\<rparr>) = [Read]" "hs_file (played\<lparr>hiscore := 300\<rparr>) = Absent"
    by (simp_all add: a)
  from session_writable obtain s' where
    r: "run (high_score_session Writable) (Game_init Absent) = Inr s'"
    and v: "hs_view s' = (55, Stored 55, [Read, Write 55, Read])"
    by (cases "run (high_score_session Writable) (Game_init Absent)") auto
  from v have t: "io_trace s' = [Read, Write 55, Read]" "hs_file s' = Stored 55"
    by (simp_all add: hs_view_def)
  then have w: "writes_ok s'" by (simp add: writes_ok_def)
  from high_score_store [where s = played and fs = "high_score_session Writable"
      and f = Absent and s' = s'] r w a
  have 1: "hiscore (game_over played) = 55 \<and> hs_file (game_over played) = Stored 55 \<and>
      io_trace (game_over played) = [Read, Write 55] \<and> hiscore s' = file_value (hs_file s')"
    by simp
  from high_score_store [where s = "played\<lparr>disk := OpenFails\<rparr>"]
  have 2: "hiscore (game_over (played\<lparr>disk := OpenFails\<rparr>)) = 55 \<and>
      hs_file (game_over (played\<lparr>disk := OpenFails\<rparr>)) = Absent \<and>
      io_trace (game_over (played\<lparr>disk := OpenFails\<rparr>)) = [Read, WriteFailed 55]"
    unfolding b by simp
  from high_score_store [where s = "played\<lparr>disk := DumpFails\<rparr>"]
  have 3: "hiscore (game_over (played\<lparr>disk := DumpFails\<rparr>)) = 55 \<and>
      hs_file (game_over (played\<lparr>disk := DumpFails\<rparr>)) = Corrupt \<and>
      io_trace (game_over (played\<lparr>disk := DumpFails\<rparr>)) = [Read, WriteFailed 55]"
    unfolding b by simp
  from high_score_store [where s = "played\<lparr>hiscore := 300\<rparr>"]
  have 4: "hiscore (game_over (played\<lparr>hiscore := 300\<rparr>)) = 300 \<and>
      hs_file (game_over (played\<lparr>hiscore := 300\<rparr>)) = Absent \<and>
      io_trace (game_over (played\<lparr>hiscore := 300\<rparr>)) = [Read]"
    unfolding c by simp
  have 5: "\<exists>s'. run (high_score_session Writable) (Game_init Absent) = Inr s' \<and> writes_ok s' \<and>
      io_trace s' = [Read, Write 55, Read] \<and> hs_file s' = Stored 55 \<and>
      hiscore s' = file_value (hs_file s')"
    using r w t 1 by blast
  from 1 2 3 4 5 show ?thesis
    unfolding a b c by simp
qed

end
